theory Spec2Isabelle
  imports
    Main
    "HOL-Library.List_Lexorder"
    "HOL-Library.AList"
    "HOL-Library.Multiset"
begin

section \<open>Training-subset paths for a learning curve (vak.core.learncurve.train_dur_csv_paths)\<close>

text \<open>
  The module has two entry points, \<open>from_dir\<close> and \<open>from_df\<close>. Both walk a results
  directory, create one sub-directory per training-set duration and per replicate, write
  files there and return a \<open>defaultdict(list)\<close> from durations to lists of paths.
  Everything they do goes through a file system, so the model carries an explicit world
  state; every exception of the source is a value of type \<open>error\<close>, and a call returns its
  outcome together with the world it leaves behind (an exception does not undo the writes
  that happened before it).
\<close>

subsection \<open>Strings, numbers and the duration pattern\<close>

text \<open>
  A Python \<open>str\<close> is a sequence of Unicode code points, and file names are such strings.
  The literals of the module are ASCII; \<open>ascii\<close> gives the \<open>str\<close> of such a literal.
\<close>

type_synonym codepoint = nat

type_synonym str = "codepoint list"

definition ascii :: "string \<Rightarrow> str" where
  "ascii s = map of_char s"

type_synonym path = "str list"

datatype error =
    ValueError_naming path "str list"
  | ValueError_int_literal str
  | ValueError_train_set_durs "int list" "int list"
  | ValueError_num_replicates
  | FileExistsError path
  | FileNotFoundError path
  | NotADirectoryError path
  | IsADirectoryError path
  | SameFileError path
  | ParserError path
  | CollaboratorError str

text \<open>
  \<open>TRAIN_DUR_PAT\<close> is a \<open>str\<close> pattern compiled without \<open>re.ASCII\<close>, so its \<open>\d\<close> matches
  every Unicode decimal digit (category Nd), and \<open>int\<close> reads every such digit by its
  value. The Unicode database belongs to the interpreter, not to the module: it is the
  parameter \<open>decimal\<close>, which gives the digit value of a code point that is a decimal digit
  and \<open>None\<close> for any other. \<open>ascii_decimal\<close> is the part of the database below 128, and
  \<open>unicode_database\<close> says that a table agrees with it there and holds digit values only.
\<close>

type_synonym unicode_decimal = "codepoint \<Rightarrow> nat option"

definition ascii_decimal :: unicode_decimal where
  "ascii_decimal c = (if 48 \<le> c \<and> c \<le> 57 then Some (c - 48) else None)"

definition unicode_database :: "unicode_decimal \<Rightarrow> bool" where
  "unicode_database decimal =
     ((\<forall>c < 128. decimal c = ascii_decimal c) \<and> (\<forall>c d. decimal c = Some d \<longrightarrow> d < 10))"

definition is_digit :: "unicode_decimal \<Rightarrow> codepoint \<Rightarrow> bool" where
  "is_digit decimal c = (decimal c \<noteq> None)"

definition startswith :: "str \<Rightarrow> str \<Rightarrow> bool" where
  "startswith s pre = (take (length pre) s = pre)"

definition endswith :: "str \<Rightarrow> str \<Rightarrow> bool" where
  "endswith s suf = (length suf \<le> length s \<and> drop (length s - length suf) s = suf)"

text \<open>
  \<open>str(n)\<close> for a Python int, as the f-strings of the module format it: ASCII digits
  (code points 48 to 57), after a minus sign for a negative number.
\<close>

fun str_nat :: "nat \<Rightarrow> str" where
  "str_nat n = (if n < 10 then [48 + n]
                else str_nat (n div 10) @ [48 + n mod 10])"

declare str_nat.simps [simp del]

definition str_int :: "int \<Rightarrow> str" where
  "str_int i = (if i < 0 then of_char CHR ''-'' # str_nat (nat (- i)) else str_nat (nat i))"

text \<open>
  \<open>int(s)\<close> on the strings that group 1 of the pattern can hold: a run of decimal digits
  is its decimal value, anything else (a run with a decimal point) is the ValueError
  "invalid literal for int() with base 10".
\<close>

definition digit_val :: "unicode_decimal \<Rightarrow> codepoint \<Rightarrow> nat" where
  "digit_val decimal c = (case decimal c of Some d \<Rightarrow> d | None \<Rightarrow> 0)"

definition py_int :: "unicode_decimal \<Rightarrow> str \<Rightarrow> error + int" where
  "py_int decimal s =
     (if s \<noteq> [] \<and> list_all (is_digit decimal) s
      then Inr (int (foldl (\<lambda>acc c. 10 * acc + digit_val decimal c) 0 s))
      else Inl (ValueError_int_literal s))"

text \<open>
  \<open>TRAIN_DUR_PAT = r'train_dur_(\d+\.\d+|\d+)s'\<close>. \<open>match_TRAIN_DUR_PAT decimal s\<close> is
  the match anchored at the start of \<open>s\<close>: group 1 and the text after the match. The
  first alternative is tried first; both digit runs are greedy, and giving back digits
  cannot help either alternative, since the character after a shortened run is a digit.
\<close>

definition match_TRAIN_DUR_PAT :: "unicode_decimal \<Rightarrow> str \<Rightarrow> (str \<times> str) option" where
  "match_TRAIN_DUR_PAT decimal s =
     (if \<not> startswith s (ascii ''train_dur_'') then None
      else
        let r = drop 10 s;
            whole = takeWhile (is_digit decimal) r;
            r1 = dropWhile (is_digit decimal) r in
        if whole = [] then None
        else (case r1 of
                [] \<Rightarrow> None
              | c # r2 \<Rightarrow>
                  if c = of_char CHR ''.'' then
                    (let frac = takeWhile (is_digit decimal) r2;
                         r3 = dropWhile (is_digit decimal) r2 in
                     if frac \<noteq> [] \<and> startswith r3 (ascii ''s'')
                     then Some (whole @ ascii ''.'' @ frac, drop 1 r3) else None)
                  else if c = of_char CHR ''s'' then Some (whole, r2)
                  else None))"

text \<open>
  \<open>re.findall(TRAIN_DUR_PAT, name)\<close>: the group of every match, scanning left to right;
  the scan resumes where the last match ended.
\<close>

function findall_TRAIN_DUR_PAT :: "unicode_decimal \<Rightarrow> str \<Rightarrow> str list" where
  "findall_TRAIN_DUR_PAT decimal [] = []"
| "findall_TRAIN_DUR_PAT decimal (c # cs) =
     (case match_TRAIN_DUR_PAT decimal (c # cs) of
        Some (g, rest) \<Rightarrow> g # findall_TRAIN_DUR_PAT decimal rest
      | None \<Rightarrow> findall_TRAIN_DUR_PAT decimal cs)"
  by pat_completeness auto
termination
proof (relation "measure (\<lambda>(decimal, s). length s)")
  show "wf (measure (\<lambda>(decimal :: unicode_decimal, s :: str). length s))"
    by simp
next
  fix decimal :: unicode_decimal and c :: codepoint and cs :: str
  assume "match_TRAIN_DUR_PAT decimal (c # cs) = None"
  show "((decimal, cs), (decimal, c # cs)) \<in> measure (\<lambda>(decimal, s). length s)"
    by simp
next
  fix decimal :: unicode_decimal and c :: codepoint and cs x2 g rest :: str
    and x2a :: "str \<times> str"
  assume m: "match_TRAIN_DUR_PAT decimal (c # cs) = Some x2a" and x: "(g, rest) = x2a"
  define s where "s = c # cs"
  have m': "match_TRAIN_DUR_PAT decimal s = Some (g, rest)"
    using m x by (simp add: s_def)
  have d: "length (dropWhile (is_digit decimal) xs) \<le> length xs" for xs
    by (rule length_dropWhile_le)
  from m' have st: "startswith s (ascii ''train_dur_'')"
    by (auto simp: match_TRAIN_DUR_PAT_def split: if_splits)
  then have ls: "10 \<le> length s"
    by (auto simp: startswith_def ascii_def dest!: arg_cong [where f = length])
  define r where "r = drop 10 s"
  define r1 where "r1 = dropWhile (is_digit decimal) r"
  have l1: "length r1 \<le> length s - 10"
    using d [of r] by (simp add: r1_def r_def)
  from m' st obtain c' r2 where r1: "r1 = c' # r2"
    by (auto simp: match_TRAIN_DUR_PAT_def Let_def r1_def r_def split: if_splits list.splits)
  have "length rest \<le> length r2"
    using m' st r1 d [of r2]
    by (auto simp: match_TRAIN_DUR_PAT_def Let_def r1_def r_def split: if_splits)
  with l1 r1 ls have "length rest < length s"
    by simp
  then show "((decimal, rest), (decimal, c # cs)) \<in> measure (\<lambda>(decimal, s). length s)"
    by (simp add: s_def)
qed


subsection \<open>Paths\<close>

text \<open>
  A path is the list of its parts below a fixed root; \<open>Path.joinpath\<close> with a name that
  holds no separator appends one part. Paths compare as their part lists do, which is the
  lexicographic order of \<open>sorted\<close> on \<open>Path\<close> objects.
\<close>

definition joinpath :: "path \<Rightarrow> str \<Rightarrow> path" where
  "joinpath p n = p @ [n]"

definition name_of :: "path \<Rightarrow> str" where
  "name_of p = (if p = [] then [] else last p)"

definition parent :: "path \<Rightarrow> path" where
  "parent p = butlast p"

text \<open>\<open>Path.stem\<close>: the name up to its last dot, unless that dot is first or last.\<close>

definition rfind_dot :: "str \<Rightarrow> nat option" where
  "rfind_dot s = (case filter (\<lambda>i. s ! i = of_char CHR ''.'') (rev [0..<length s]) of
                    [] \<Rightarrow> None | i # _ \<Rightarrow> Some i)"

definition stem :: "path \<Rightarrow> str" where
  "stem p = (let name = name_of p in
             case rfind_dot name of
               None \<Rightarrow> name
             | Some i \<Rightarrow> if 0 < i \<and> i < length name - 1 then take i name else name)"

text \<open>
  \<open>CSV_GLOB = '**/*prep*csv'\<close>: the last segment, \<open>*prep*csv\<close>, matches a name that
  holds \<open>prep\<close> and ends, after it, in \<open>csv\<close>.
\<close>

definition fnmatch_prep_csv :: "str \<Rightarrow> bool" where
  "fnmatch_prep_csv name =
     list_ex (\<lambda>i. startswith (drop i name) (ascii ''prep'') \<and> endswith (drop (i + 4) name) (ascii ''csv''))
       [0..<length name]"

subsection \<open>Tables, arrays and the file system\<close>

text \<open>
  A dataset table is its list of rows; a row carries its label in the index of the table,
  its \<open>split\<close> column and the other cells. A window-index array is a list of integers.
\<close>

record row =
  index :: str
  split :: str
  cells :: "str list"

type_synonym dataframe = "row list"

type_synonym ndarray = "int list"

text \<open>
  The file system is an association list from paths to nodes, in the order in which the
  operating system enumerates them. A \<open>CsvFile df\<close> is a file that \<open>pandas.read_csv\<close>
  parses to \<open>df\<close>; a \<open>CsvWritten df\<close> is the file that \<open>df.to_csv(path)\<close> writes, which
  holds the rows of \<open>df\<close>, each after its index label; an \<open>NpyFile\<close> is what
  \<open>numpy.save\<close> writes. Permissions, symbolic links and full disks are outside the model.
  The world also holds the state \<open>env\<close> that the two collaborators of the module read and
  change (the random generator of the splitter, the spectrogram files of the window-index
  builder).
\<close>

datatype node = Dir | CsvFile dataframe | CsvWritten dataframe | NpyFile ndarray | OtherFile str

type_synonym filesystem = "(path \<times> node) list"

record 'r world =
  fs :: filesystem
  env :: 'r

definition lookup :: "'r world \<Rightarrow> path \<Rightarrow> node option" where
  "lookup w p = map_of (fs w) p"

definition store :: "path \<Rightarrow> node \<Rightarrow> 'r world \<Rightarrow> 'r world" where
  "store p n w = w\<lparr>fs := AList.update p n (fs w)\<rparr>"

text \<open>
  \<open>previous_run_path.glob('**/*prep*csv')\<close>: every path strictly below the root whose
  last part matches and that is reached through directories only; files and directories
  alike, in the order of the file system.
\<close>

definition glob_CSV_GLOB :: "filesystem \<Rightarrow> path \<Rightarrow> path list" where
  "glob_CSV_GLOB f root =
     filter (\<lambda>p. length root < length p \<and> take (length root) p = root
                 \<and> list_all (\<lambda>k. map_of f (take k p) = Some Dir) [length root..<length p]
                 \<and> fnmatch_prep_csv (last p))
       (map fst f)"

text \<open>\<open>Path.mkdir()\<close> with its defaults: no parents are created, an existing path is an error.\<close>

definition mkdir :: "path \<Rightarrow> 'r world \<Rightarrow> (error + unit) \<times> 'r world" where
  "mkdir p w =
     (case lookup w (parent p) of
        None \<Rightarrow> (Inl (FileNotFoundError p), w)
      | Some Dir \<Rightarrow>
          if lookup w p \<noteq> None then (Inl (FileExistsError p), w)
          else (Inr (), store p Dir w)
      | Some _ \<Rightarrow> (Inl (NotADirectoryError p), w))"

text \<open>Opening a path for writing and replacing its content (\<open>open(p, 'wb')\<close>).\<close>

definition write_file :: "path \<Rightarrow> node \<Rightarrow> 'r world \<Rightarrow> (error + unit) \<times> 'r world" where
  "write_file p c w =
     (case lookup w (parent p) of
        None \<Rightarrow> (Inl (FileNotFoundError p), w)
      | Some Dir \<Rightarrow>
          if lookup w p = Some Dir then (Inl (IsADirectoryError p), w)
          else (Inr (), store p c w)
      | Some _ \<Rightarrow> (Inl (NotADirectoryError p), w))"

definition read_file :: "path \<Rightarrow> 'r world \<Rightarrow> error + node" where
  "read_file p w =
     (case lookup w p of
        None \<Rightarrow> Inl (FileNotFoundError p)
      | Some Dir \<Rightarrow> Inl (IsADirectoryError p)
      | Some c \<Rightarrow> Inr c)"

text \<open>\<open>numpy.save(file, arr)\<close> appends \<open>.npy\<close> to a file name that lacks it.\<close>

definition np_save :: "path \<Rightarrow> ndarray \<Rightarrow> 'r world \<Rightarrow> (error + unit) \<times> 'r world" where
  "np_save p arr w =
     (let file = (if endswith (name_of p) (ascii ''.npy'') then p
                  else joinpath (parent p) (name_of p @ (ascii ''.npy'')))
      in write_file file (NpyFile arr) w)"

text \<open>
  \<open>df.to_csv(path)\<close> with its defaults writes the index as a first column without a
  name. \<open>pandas.read_csv(path)\<close> with its defaults numbers the rows from 0 and reads
  such a first column as one more column of cells.
\<close>

definition to_csv :: "dataframe \<Rightarrow> path \<Rightarrow> 'r world \<Rightarrow> (error + unit) \<times> 'r world" where
  "to_csv df p w = write_file p (CsvWritten df) w"

definition reset_index :: "dataframe \<Rightarrow> dataframe" where
  "reset_index df =
     map (\<lambda>(i, r). \<lparr>index = str_nat i, split = split r, cells = index r # cells r\<rparr>)
       (zip [0..<length df] df)"

definition read_csv :: "path \<Rightarrow> 'r world \<Rightarrow> error + dataframe" where
  "read_csv p w =
     (case read_file p w of
        Inl e \<Rightarrow> Inl e
      | Inr (CsvFile df) \<Rightarrow> Inr df
      | Inr (CsvWritten df) \<Rightarrow> Inr (reset_index df)
      | Inr _ \<Rightarrow> Inl (ParserError p))"

text \<open>
  \<open>shutil.copy(src, dst)\<close>: a destination that is a directory receives the file under the
  source's name; copying a file onto itself is an error; the source is opened first, then
  the destination. It returns the path it wrote.
\<close>

definition shutil_copy :: "path \<Rightarrow> path \<Rightarrow> 'r world \<Rightarrow> (error + path) \<times> 'r world" where
  "shutil_copy src dst w =
     (let dst' = (if lookup w dst = Some Dir then joinpath dst (name_of src) else dst) in
      if src = dst' \<and> lookup w src \<noteq> None then (Inl (SameFileError src), w)
      else
        case read_file src w of
          Inl e \<Rightarrow> (Inl e, w)
        | Inr c \<Rightarrow>
            (case write_file dst' c w of
               (Inl e, w') \<Rightarrow> (Inl e, w')
             | (Inr _, w') \<Rightarrow> (Inr dst', w')))"

subsection \<open>The result mapping: \<open>defaultdict(list)\<close>\<close>

text \<open>
  A Python dict keeps its keys in insertion order, so the mapping is an association list.
  Indexing a \<open>defaultdict(list)\<close> with a missing key does not raise: it inserts the key
  with a new empty list and returns that list. Assigning to a key replaces its value in
  place or appends the new key.
\<close>

type_synonym ('k, 'v) defaultdict = "('k \<times> 'v list) list"

definition dd_getitem :: "('k, 'v) defaultdict \<Rightarrow> 'k \<Rightarrow> 'v list \<times> ('k, 'v) defaultdict" where
  "dd_getitem d k = (case map_of d k of Some v \<Rightarrow> (v, d) | None \<Rightarrow> ([], d @ [(k, [])]))"

definition dd_setitem :: "('k, 'v) defaultdict \<Rightarrow> 'k \<Rightarrow> 'v list \<Rightarrow> ('k, 'v) defaultdict" where
  "dd_setitem d k v = AList.update k v d"

definition dd_append :: "('k, 'v) defaultdict \<Rightarrow> 'k \<Rightarrow> 'v \<Rightarrow> ('k, 'v) defaultdict" where
  "dd_append d k x = (case dd_getitem d k of (v, d') \<Rightarrow> dd_setitem d' k (v @ [x]))"

definition dd_keys :: "('k, 'v) defaultdict \<Rightarrow> 'k list" where
  "dd_keys d = map fst d"

definition dd_values :: "('k, 'v) defaultdict \<Rightarrow> 'v list list" where
  "dd_values d = map snd d"

subsection \<open>\<open>from_dir\<close>: recovering the subsets of a previous run\<close>

text \<open>
  The first loop of \<open>from_dir\<close> (lines 94 to 103): one duration per file name, or the
  ValueError that names the file; \<open>int\<close> of the matched text; grouping by duration.
\<close>

fun scan_csv_paths ::
  "unicode_decimal \<Rightarrow> path list \<Rightarrow> (int, path) defaultdict
     \<Rightarrow> error + (int, path) defaultdict" where
  "scan_csv_paths decimal [] train_dur_csv_paths = Inr train_dur_csv_paths"
| "scan_csv_paths decimal (train_subset_path # rest) train_dur_csv_paths =
     (let train_dur = findall_TRAIN_DUR_PAT decimal (name_of train_subset_path) in
      if length train_dur \<noteq> 1 then Inl (ValueError_naming train_subset_path train_dur)
      else
        case py_int decimal (hd train_dur) of
          Inl e \<Rightarrow> Inl e
        | Inr train_dur \<Rightarrow>
            scan_csv_paths decimal rest
              (dd_append train_dur_csv_paths train_dur train_subset_path))"

text \<open>The two inner loops over the three vector names (lines 156 to 167).\<close>

fun save_vectors ::
  "path \<Rightarrow> (str \<times> ndarray) list \<Rightarrow> 'r world \<Rightarrow> (error + unit) \<times> 'r world" where
  "save_vectors results_path_this_replicate [] w = (Inr (), w)"
| "save_vectors results_path_this_replicate ((vec_name, vec) # rest) w =
     (case np_save (joinpath results_path_this_replicate (vec_name @ (ascii ''.npy''))) vec w of
        (Inl e, w') \<Rightarrow> (Inl e, w')
      | (Inr _, w') \<Rightarrow> save_vectors results_path_this_replicate rest w')"

fun copy_vectors ::
  "path \<Rightarrow> path \<Rightarrow> str list \<Rightarrow> 'r world \<Rightarrow> (error + unit) \<times> 'r world" where
  "copy_vectors csv_path results_path_this_replicate [] w = (Inr (), w)"
| "copy_vectors csv_path results_path_this_replicate (vec_name # rest) w =
     (let src_vec_path = joinpath (parent csv_path) (vec_name @ (ascii ''.npy'')) in
      case shutil_copy src_vec_path
             (joinpath results_path_this_replicate (name_of src_vec_path)) w of
        (Inl e, w') \<Rightarrow> (Inl e, w')
      | (Inr _, w') \<Rightarrow> copy_vectors csv_path results_path_this_replicate rest w')"

text \<open>
  The body of the replicate loop (lines 137 to 167) for one table file. The window-index
  builder \<open>vectors_from_df\<close> is \<open>WindowDataset.spect_vectors_from_df\<close> with the window
  arguments already supplied; it gets the table and \<open>crop_dur\<close>.
\<close>

type_synonym 'r vectors_builder =
  "'r \<Rightarrow> dataframe \<Rightarrow> int \<Rightarrow> (error + ndarray \<times> ndarray \<times> ndarray) \<times> 'r"

definition copy_replicate ::
  "'r vectors_builder \<Rightarrow> int \<Rightarrow> path \<Rightarrow> int \<Rightarrow> path \<Rightarrow> 'r world
     \<Rightarrow> (error + path) \<times> 'r world" where
  "copy_replicate vectors_from_df train_dur results_path_this_train_dur replicate_num csv_path w =
     (let results_path_this_replicate =
            joinpath results_path_this_train_dur ((ascii ''replicate_'') @ str_int replicate_num) in
      case mkdir results_path_this_replicate w of
        (Inl e, w1) \<Rightarrow> (Inl e, w1)
      | (Inr _, w1) \<Rightarrow>
      (case shutil_copy csv_path (joinpath results_path_this_replicate (name_of csv_path)) w1 of
        (Inl e, w2) \<Rightarrow> (Inl e, w2)
      | (Inr new_csv_path, w2) \<Rightarrow>
      (case read_csv csv_path w2 of
        Inl e \<Rightarrow> (Inl e, w2)
      | Inr subset_df \<Rightarrow>
      (case vectors_from_df (env w2) subset_df train_dur of
        (Inl e, r) \<Rightarrow> (Inl e, w2\<lparr>env := r\<rparr>)
      | (Inr (spect_id_vector, spect_inds_vector, x_inds), r) \<Rightarrow>
      (case save_vectors results_path_this_replicate
              [((ascii ''spect_id_vector''), spect_id_vector),
               ((ascii ''spect_inds_vector''), spect_inds_vector),
               ((ascii ''x_inds''), x_inds)] (w2\<lparr>env := r\<rparr>) of
        (Inl e, w3) \<Rightarrow> (Inl e, w3)
      | (Inr _, w3) \<Rightarrow>
      (case copy_vectors csv_path results_path_this_replicate
              [(ascii ''spect_id_vector''), (ascii ''spect_inds_vector''), (ascii ''x_inds'')] w3 of
        (Inl e, w4) \<Rightarrow> (Inl e, w4)
      | (Inr _, w4) \<Rightarrow> (Inr new_csv_path, w4)))))))"

fun copy_replicates ::
  "'r vectors_builder \<Rightarrow> int \<Rightarrow> path \<Rightarrow> (int \<times> path) list \<Rightarrow> path list \<Rightarrow> 'r world
     \<Rightarrow> (error + path list) \<times> 'r world" where
  "copy_replicates vectors_from_df train_dur results_path_this_train_dur [] new_csv_paths w =
     (Inr new_csv_paths, w)"
| "copy_replicates vectors_from_df train_dur results_path_this_train_dur
     ((replicate_num, csv_path) # rest) new_csv_paths w =
     (case copy_replicate vectors_from_df train_dur results_path_this_train_dur
             replicate_num csv_path w of
        (Inl e, w') \<Rightarrow> (Inl e, w')
      | (Inr new_csv_path, w') \<Rightarrow>
          copy_replicates vectors_from_df train_dur results_path_this_train_dur rest
            (new_csv_paths @ [new_csv_path]) w')"

text \<open>
  The loop over the keys of the mapping (lines 131 to 169). The keys are those the
  mapping has when the loop starts; the body replaces the value of the current key.
\<close>

fun copy_train_durs ::
  "'r vectors_builder \<Rightarrow> path \<Rightarrow> int list \<Rightarrow> (int, path) defaultdict \<Rightarrow> 'r world
     \<Rightarrow> (error + (int, path) defaultdict) \<times> 'r world" where
  "copy_train_durs vectors_from_df results_path [] train_dur_csv_paths w =
     (Inr train_dur_csv_paths, w)"
| "copy_train_durs vectors_from_df results_path (train_dur # rest) train_dur_csv_paths w =
     (let results_path_this_train_dur =
            joinpath results_path ((ascii ''train_dur_'') @ str_int train_dur @ (ascii ''s'')) in
      case mkdir results_path_this_train_dur w of
        (Inl e, w1) \<Rightarrow> (Inl e, w1)
      | (Inr _, w1) \<Rightarrow>
      (case dd_getitem train_dur_csv_paths train_dur of
        (csv_paths, train_dur_csv_paths1) \<Rightarrow>
      (case copy_replicates vectors_from_df train_dur results_path_this_train_dur
              (zip [1..int (length csv_paths)] csv_paths) [] w1 of
        (Inl e, w2) \<Rightarrow> (Inl e, w2)
      | (Inr new_csv_paths, w2) \<Rightarrow>
          copy_train_durs vectors_from_df results_path rest
            (dd_setitem train_dur_csv_paths1 train_dur new_csv_paths) w2)))"

text \<open>
  \<open>from_dir\<close> itself. \<open>spect_vectors_from_df\<close> takes, after the state, the table,
  \<open>window_size\<close>, \<open>spect_key\<close>, \<open>timebins_key\<close>, \<open>crop_dur\<close>, \<open>timebin_dur\<close> and
  \<open>labelmap\<close>, as in the source. The three checks come before the first write; logging
  does not touch the file system. The first argument is the Unicode database that \<open>re\<close>
  and \<open>int\<close> consult.
\<close>

definition from_dir ::
  "unicode_decimal
   \<Rightarrow> ('r \<Rightarrow> dataframe \<Rightarrow> int \<Rightarrow> str \<Rightarrow> str \<Rightarrow> int \<Rightarrow> 'f \<Rightarrow> 'm
      \<Rightarrow> (error + ndarray \<times> ndarray \<times> ndarray) \<times> 'r)
   \<Rightarrow> path \<Rightarrow> int list \<Rightarrow> 'f \<Rightarrow> int \<Rightarrow> path \<Rightarrow> int \<Rightarrow> str \<Rightarrow> str \<Rightarrow> 'm \<Rightarrow> 'r world
   \<Rightarrow> (error + (int, path) defaultdict) \<times> 'r world" where
  "from_dir decimal spect_vectors_from_df previous_run_path train_set_durs timebin_dur
     num_replicates results_path window_size spect_key timebins_key labelmap w =
     (let csv_paths = sort (glob_CSV_GLOB (fs w) previous_run_path) in
      case scan_csv_paths decimal csv_paths [] of
        Inl e \<Rightarrow> (Inl e, w)
      | Inr train_dur_csv_paths \<Rightarrow>
          let found_train_set_durs = sort (dd_keys train_dur_csv_paths) in
          if \<not> found_train_set_durs = sort train_set_durs
          then (Inl (ValueError_train_set_durs (sort train_set_durs) found_train_set_durs), w)
          else if \<not> list_all (\<lambda>csv_paths. int (length csv_paths) = num_replicates)
                      (dd_values train_dur_csv_paths)
          then (Inl ValueError_num_replicates, w)
          else
            copy_train_durs
              (\<lambda>r df crop_dur. spect_vectors_from_df r df window_size spect_key timebins_key
                                 crop_dur timebin_dur labelmap)
              results_path (dd_keys train_dur_csv_paths) train_dur_csv_paths w)"

subsection \<open>\<open>from_df\<close>: drawing fresh subsets\<close>

text \<open>
  The body of the replicate loop of \<open>from_df\<close> (lines 246 to 278). \<open>split_dataframe\<close> is
  \<open>vak.split.dataframe\<close>; it draws at random, so it reads and changes the state.
\<close>

type_synonym ('r, 'l) splitter =
  "'r \<Rightarrow> dataframe \<Rightarrow> int \<Rightarrow> 'l \<Rightarrow> (error + dataframe) \<times> 'r"

definition subset_replicate ::
  "('r, 'l) splitter \<Rightarrow> 'r vectors_builder \<Rightarrow> dataframe \<Rightarrow> path \<Rightarrow> 'l \<Rightarrow> int \<Rightarrow> path \<Rightarrow> int
     \<Rightarrow> (int, path) defaultdict \<Rightarrow> 'r world
     \<Rightarrow> (error + (int, path) defaultdict) \<times> 'r world" where
  "subset_replicate split_dataframe vectors_from_df dataset_df csv_path labelset train_dur
     results_path_this_train_dur replicate_num train_dur_csv_paths w =
     (let results_path_this_replicate =
            joinpath results_path_this_train_dur ((ascii ''replicate_'') @ str_int replicate_num) in
      case mkdir results_path_this_replicate w of
        (Inl e, w1) \<Rightarrow> (Inl e, w1)
      | (Inr _, w1) \<Rightarrow>
      (let train_df = filter (\<lambda>r. split r = ascii ''train'') dataset_df in
       case split_dataframe (env w1) train_df train_dur labelset of
        (Inl e, r) \<Rightarrow> (Inl e, w1\<lparr>env := r\<rparr>)
      | (Inr subset_df, r) \<Rightarrow>
      (let subset_df = filter (\<lambda>r. split r = ascii ''train'') subset_df in
       case vectors_from_df r subset_df train_dur of
        (Inl e, r') \<Rightarrow> (Inl e, w1\<lparr>env := r'\<rparr>)
      | (Inr (spect_id_vector, spect_inds_vector, x_inds), r') \<Rightarrow>
      (case save_vectors results_path_this_replicate
              [((ascii ''spect_id_vector''), spect_id_vector),
               ((ascii ''spect_inds_vector''), spect_inds_vector),
               ((ascii ''x_inds''), x_inds)] (w1\<lparr>env := r'\<rparr>) of
        (Inl e, w2) \<Rightarrow> (Inl e, w2)
      | (Inr _, w2) \<Rightarrow>
      (let subset_df = subset_df
                       @ filter (\<lambda>r. split r = ascii ''val'') dataset_df
                       @ filter (\<lambda>r. split r = ascii ''test'') dataset_df;
           subset_csv_name = stem csv_path @ (ascii ''_train_dur_'') @ str_int train_dur
                             @ (ascii ''s_replicate_'') @ str_int replicate_num @ (ascii ''.csv'');
           subset_csv_path = joinpath results_path_this_replicate subset_csv_name in
       case to_csv subset_df subset_csv_path w2 of
        (Inl e, w3) \<Rightarrow> (Inl e, w3)
      | (Inr _, w3) \<Rightarrow> (Inr (dd_append train_dur_csv_paths train_dur subset_csv_path), w3))))))"

fun subset_replicates ::
  "('r, 'l) splitter \<Rightarrow> 'r vectors_builder \<Rightarrow> dataframe \<Rightarrow> path \<Rightarrow> 'l \<Rightarrow> int \<Rightarrow> path \<Rightarrow> int list
     \<Rightarrow> (int, path) defaultdict \<Rightarrow> 'r world
     \<Rightarrow> (error + (int, path) defaultdict) \<times> 'r world" where
  "subset_replicates split_dataframe vectors_from_df dataset_df csv_path labelset train_dur
     results_path_this_train_dur [] train_dur_csv_paths w = (Inr train_dur_csv_paths, w)"
| "subset_replicates split_dataframe vectors_from_df dataset_df csv_path labelset train_dur
     results_path_this_train_dur (replicate_num # rest) train_dur_csv_paths w =
     (case subset_replicate split_dataframe vectors_from_df dataset_df csv_path labelset
             train_dur results_path_this_train_dur replicate_num train_dur_csv_paths w of
        (Inl e, w') \<Rightarrow> (Inl e, w')
      | (Inr train_dur_csv_paths', w') \<Rightarrow>
          subset_replicates split_dataframe vectors_from_df dataset_df csv_path labelset
            train_dur results_path_this_train_dur rest train_dur_csv_paths' w')"

fun subset_train_durs ::
  "('r, 'l) splitter \<Rightarrow> 'r vectors_builder \<Rightarrow> dataframe \<Rightarrow> path \<Rightarrow> 'l \<Rightarrow> int \<Rightarrow> path \<Rightarrow> int list
     \<Rightarrow> (int, path) defaultdict \<Rightarrow> 'r world
     \<Rightarrow> (error + (int, path) defaultdict) \<times> 'r world" where
  "subset_train_durs split_dataframe vectors_from_df dataset_df csv_path labelset
     num_replicates results_path [] train_dur_csv_paths w = (Inr train_dur_csv_paths, w)"
| "subset_train_durs split_dataframe vectors_from_df dataset_df csv_path labelset
     num_replicates results_path (train_dur # rest) train_dur_csv_paths w =
     (let results_path_this_train_dur =
            joinpath results_path ((ascii ''train_dur_'') @ str_int train_dur @ (ascii ''s'')) in
      case mkdir results_path_this_train_dur w of
        (Inl e, w1) \<Rightarrow> (Inl e, w1)
      | (Inr _, w1) \<Rightarrow>
      (case subset_replicates split_dataframe vectors_from_df dataset_df csv_path labelset
              train_dur results_path_this_train_dur [1..num_replicates] train_dur_csv_paths w1 of
        (Inl e, w2) \<Rightarrow> (Inl e, w2)
      | (Inr train_dur_csv_paths', w2) \<Rightarrow>
          subset_train_durs split_dataframe vectors_from_df dataset_df csv_path labelset
            num_replicates results_path rest train_dur_csv_paths' w2))"

definition from_df ::
  "('r, 'l) splitter
   \<Rightarrow> ('r \<Rightarrow> dataframe \<Rightarrow> int \<Rightarrow> str \<Rightarrow> str \<Rightarrow> int \<Rightarrow> 'f \<Rightarrow> 'm
        \<Rightarrow> (error + ndarray \<times> ndarray \<times> ndarray) \<times> 'r)
   \<Rightarrow> dataframe \<Rightarrow> path \<Rightarrow> int list \<Rightarrow> 'f \<Rightarrow> int \<Rightarrow> path \<Rightarrow> 'l \<Rightarrow> int \<Rightarrow> str \<Rightarrow> str \<Rightarrow> 'm
   \<Rightarrow> 'r world \<Rightarrow> (error + (int, path) defaultdict) \<times> 'r world" where
  "from_df split_dataframe spect_vectors_from_df dataset_df csv_path train_set_durs timebin_dur
     num_replicates results_path labelset window_size spect_key timebins_key labelmap w =
     subset_train_durs split_dataframe
       (\<lambda>r df crop_dur. spect_vectors_from_df r df window_size spect_key timebins_key
                          crop_dur timebin_dur labelmap)
       dataset_df csv_path labelset num_replicates results_path train_set_durs [] w"

subsection \<open>Names of the output directories and files\<close>

text \<open>
  The directory of a duration, the directory of a replicate and the table file that
  \<open>from_df\<close> writes for a replicate, as the f-strings of the source build them.
\<close>

definition train_dur_dir :: "path \<Rightarrow> int \<Rightarrow> path" where
  "train_dur_dir results_path train_dur =
     joinpath results_path ((ascii ''train_dur_'') @ str_int train_dur @ (ascii ''s''))"

definition replicate_dir :: "path \<Rightarrow> int \<Rightarrow> int \<Rightarrow> path" where
  "replicate_dir results_path train_dur replicate_num =
     joinpath (train_dur_dir results_path train_dur) ((ascii ''replicate_'') @ str_int replicate_num)"

definition subset_csv_path :: "path \<Rightarrow> path \<Rightarrow> int \<Rightarrow> int \<Rightarrow> path" where
  "subset_csv_path csv_path results_path train_dur replicate_num =
     joinpath (replicate_dir results_path train_dur replicate_num)
       (stem csv_path @ (ascii ''_train_dur_'') @ str_int train_dur
        @ (ascii ''s_replicate_'') @ str_int replicate_num @ (ascii ''.csv''))"

text \<open>A file system is a tree: whatever exists below the root lies in a directory.\<close>

definition wf_fs :: "filesystem \<Rightarrow> bool" where
  "wf_fs f = list_all (\<lambda>(p, n). p = [] \<or> map_of f (butlast p) = Some Dir) f"

text \<open>Nothing that exists in \<open>w\<close> is missing from \<open>w'\<close>.\<close>

definition grows :: "'r world \<Rightarrow> 'r world \<Rightarrow> bool" where
  "grows w w' = (\<forall>x. lookup w x \<noteq> None \<longrightarrow> lookup w' x \<noteq> None)"

text \<open>
  Nothing that exists in \<open>w\<close> is missing from \<open>w'\<close>, and inside the directories
  of \<open>w\<close> the only change is a new directory.
\<close>

definition extends :: "'r world \<Rightarrow> 'r world \<Rightarrow> bool" where
  "extends w w' =
     (grows w w' \<and>
      (\<forall>x. lookup w (parent x) \<noteq> None \<longrightarrow>
           lookup w' x = lookup w x \<or> (lookup w x = None \<and> lookup w' x = Some Dir)))"

subsection \<open>A small run to evaluate\<close>

text \<open>
  A table of four rows, a splitter that keeps the first \<open>train_dur\<close> rows it is given and
  tags the others \<open>None\<close>, and a window-index builder that returns the number of rows it
  sees. The file system holds the root, the results directory and a previous run with two
  durations, two replicates each, and the three array files beside the tables.
\<close>

definition example_df :: dataframe where
  "example_df =
     [\<lparr>index = ascii ''0'', split = ascii ''train'', cells = [ascii ''a'']\<rparr>,
      \<lparr>index = ascii ''1'', split = ascii ''val'', cells = [ascii ''b'']\<rparr>,
      \<lparr>index = ascii ''2'', split = ascii ''train'', cells = [ascii ''c'']\<rparr>,
      \<lparr>index = ascii ''3'', split = ascii ''test'', cells = [ascii ''d'']\<rparr>]"

definition example_split :: "(unit, unit) splitter" where
  "example_split r df train_dur labelset =
     (Inr (take (nat train_dur) df
           @ map (\<lambda>row. row\<lparr>split := ascii ''None''\<rparr>) (drop (nat train_dur) df)), r)"

definition example_vectors ::
  "unit \<Rightarrow> dataframe \<Rightarrow> int \<Rightarrow> str \<Rightarrow> str \<Rightarrow> int \<Rightarrow> unit \<Rightarrow> unit
     \<Rightarrow> (error + ndarray \<times> ndarray \<times> ndarray) \<times> unit" where
  "example_vectors r df window_size spect_key timebins_key crop_dur timebin_dur labelmap =
     (Inr ([int (length df)], [window_size], [crop_dur]), r)"

definition example_fs :: filesystem where
  "example_fs =
     [([], Dir), ([ascii ''results''], Dir), ([ascii ''prev''], Dir),
      ([ascii ''prev'', ascii ''foo_prep_train_dur_5s_r2.csv''], CsvFile (take 2 example_df)),
      ([ascii ''prev'', ascii ''foo_prep_train_dur_10s_r1.csv''], CsvFile (take 3 example_df)),
      ([ascii ''prev'', ascii ''foo_prep_train_dur_5s_r1.csv''], CsvFile (take 1 example_df)),
      ([ascii ''prev'', ascii ''foo_prep_train_dur_10s_r2.csv''], CsvFile example_df),
      ([ascii ''prev'', ascii ''spect_id_vector.npy''], NpyFile [1]),
      ([ascii ''prev'', ascii ''spect_inds_vector.npy''], NpyFile [2]),
      ([ascii ''prev'', ascii ''x_inds.npy''], NpyFile [3])]"

definition example_world :: "unit world" where
  "example_world = \<lparr>fs = example_fs, env = ()\<rparr>"

text \<open>The same, read through \<open>lookup\<close>: the invariant that the operations keep.\<close>

definition tree_like :: "'r world \<Rightarrow> bool" where
  "tree_like w = (\<forall>x. lookup w x \<noteq> None \<longrightarrow> x \<noteq> [] \<longrightarrow> lookup w (parent x) = Some Dir)"

text \<open>The three array files of a replicate directory.\<close>

definition vector_files :: "str list" where
  "vector_files = [(ascii ''spect_id_vector.npy''), (ascii ''spect_inds_vector.npy''), (ascii ''x_inds.npy'')]"

text \<open>
  A results directory that is still empty; a table of digits that also holds the
  Arabic-Indic digits (U+0660 to U+0669); and a previous run whose one table carries its
  duration, 5, in such a digit (U+0665).
\<close>

definition fresh_world :: "unit world" where
  "fresh_world = \<lparr>fs = [([], Dir), ([ascii ''results''], Dir)], env = ()\<rparr>"

definition example_decimal :: unicode_decimal where
  "example_decimal c = (if 1632 \<le> c \<and> c \<le> 1641 then Some (c - 1632) else ascii_decimal c)"

definition arabic_world :: "unit world" where
  "arabic_world =
     \<lparr>fs = [([], Dir), ([ascii ''results''], Dir), ([ascii ''prev''], Dir),
            ([ascii ''prev'', ascii ''x_prep_train_dur_'' @ [1637] @ ascii ''s.csv''],
             CsvFile example_df)],
      env = ()\<rparr>"

text \<open>The previous run again, with a results directory that already holds \<open>train_dur_10s\<close>.\<close>

definition collision_world :: "unit world" where
  "collision_world =
     \<lparr>fs = example_fs @ [([ascii ''results'', ascii ''train_dur_10s''], Dir)], env = ()\<rparr>"

section \<open>Properties\<close>

subsection \<open>ASCII literals\<close>

lemma ascii_Nil [simp]: "ascii [] = []"
  by (simp add: ascii_def)

lemma ascii_Cons: "ascii (c # s) = of_char c # ascii s"
  by (simp add: ascii_def)

lemma length_ascii [simp]: "length (ascii s) = length s"
  by (simp add: ascii_def)

lemma ascii_append [simp]: "ascii a @ ascii b = ascii (a @ b)"
  by (simp add: ascii_def)

lemma ascii_append_assoc [simp]: "ascii a @ ascii b @ s = ascii (a @ b) @ s"
  by (simp add: ascii_def)

lemma ascii_eq_iff [simp]: "ascii a = ascii b \<longleftrightarrow> a = b"
proof -
  have "inj (of_char :: char \<Rightarrow> nat)"
    by (rule injI) simp
  then show ?thesis
    by (simp add: ascii_def inj_map_eq_map)
qed

subsection \<open>The file operations\<close>

lemma lookup_store: "lookup (store p n w) q = (if q = p then Some n else lookup w q)"
  by (simp add: lookup_def store_def update_conv')

lemma env_store: "env (store p n w) = env w"
  by (simp add: store_def)

lemma lookup_env_update: "lookup (w\<lparr>env := r\<rparr>) q = lookup w q"
  by (simp add: lookup_def)

lemma mkdir_cases:
  assumes "mkdir p w = (r, w')"
  shows "(\<exists>e. r = Inl e \<and> w' = w)
       \<or> (r = Inr () \<and> lookup w p = None \<and> lookup w (parent p) = Some Dir \<and> w' = store p Dir w)"
  using assms by (auto simp: mkdir_def split: option.splits node.splits if_splits)

lemma write_file_cases:
  assumes "write_file p c w = (r, w')"
  shows "(\<exists>e. r = Inl e \<and> w' = w)
       \<or> (r = Inr () \<and> lookup w (parent p) = Some Dir \<and> lookup w p \<noteq> Some Dir \<and> w' = store p c w)"
  using assms by (auto simp: write_file_def split: option.splits node.splits if_splits)

lemma endswith_append: "endswith (s @ t) t"
  by (simp add: endswith_def)

lemma name_of_joinpath: "name_of (joinpath p n) = n"
  by (simp add: name_of_def joinpath_def)

lemma parent_joinpath: "parent (joinpath p n) = p"
  by (simp add: parent_def joinpath_def)

lemma joinpath_inject: "joinpath p n = joinpath q m \<longleftrightarrow> p = q \<and> n = m"
  by (simp add: joinpath_def)

lemma joinpath_not_self: "joinpath p n \<noteq> p"
  by (simp add: joinpath_def)

lemma np_save_npy: "np_save (joinpath d (v @ (ascii ''.npy''))) arr w = write_file (joinpath d (v @ (ascii ''.npy''))) (NpyFile arr) w"
  by (simp add: np_save_def name_of_joinpath endswith_append)

lemma read_file_cases:
  "read_file p w = Inr c \<longleftrightarrow> lookup w p = Some c \<and> c \<noteq> Dir"
  by (auto simp: read_file_def split: option.splits node.splits)

lemma shutil_copy_cases:
  assumes "shutil_copy src dst w = (r, w')"
  shows "(\<exists>e. r = Inl e \<and> w' = w)
       \<or> (\<exists>c dst'. r = Inr dst'
            \<and> dst' = (if lookup w dst = Some Dir then joinpath dst (name_of src) else dst)
            \<and> lookup w src = Some c \<and> c \<noteq> Dir
            \<and> lookup w (parent dst') = Some Dir \<and> lookup w dst' \<noteq> Some Dir
            \<and> w' = store dst' c w)"
proof (cases "read_file src w")
  case (Inl e)
  with assms show ?thesis
    by (auto simp: shutil_copy_def Let_def split: if_splits)
next
  case (Inr c)
  then have c: "lookup w src = Some c" "c \<noteq> Dir"
    by (simp_all add: read_file_cases)
  define dst' where "dst' = (if lookup w dst = Some Dir then joinpath dst (name_of src) else dst)"
  obtain r1 w1 where wf: "write_file dst' c w = (r1, w1)"
    by (cases "write_file dst' c w")
  from write_file_cases [OF wf] assms Inr c wf show ?thesis
    unfolding shutil_copy_def Let_def dst'_def [symmetric]
    by (auto split: if_splits)
qed

subsection \<open>The mapping and the loops of \<open>from_dir\<close>\<close>

lemma update_append_fresh:
  "k \<notin> fst ` set d \<Longrightarrow> AList.update k v (d @ [(k, u)]) = d @ [(k, v)]"
  by (induction d) auto

lemma dd_append_conv:
  "dd_append d k x =
     (case map_of d k of None \<Rightarrow> d @ [(k, [x])] | Some v \<Rightarrow> AList.update k (v @ [x]) d)"
proof (cases "map_of d k")
  case None
  then have "k \<notin> fst ` set d"
    by (simp add: map_of_eq_None_iff)
  with None show ?thesis
    by (simp add: dd_append_def dd_getitem_def dd_setitem_def update_append_fresh)
next
  case (Some v)
  then show ?thesis
    by (simp add: dd_append_def dd_getitem_def dd_setitem_def)
qed

lemma dd_keys_append:
  "dd_keys (dd_append d k x) = (if k \<in> set (dd_keys d) then dd_keys d else dd_keys d @ [k])"
  by (auto simp: dd_append_conv dd_keys_def update_keys map_of_eq_None_iff split: option.splits
      dest: weak_map_of_SomeI)

lemma map_of_dd_append:
  "map_of (dd_append d k x) =
     (map_of d)(k \<mapsto> (case map_of d k of None \<Rightarrow> [] | Some v \<Rightarrow> v) @ [x])"
  by (rule ext) (auto simp: dd_append_conv update_conv' map_add_def split: option.splits)

lemma distinct_dd_append:
  "distinct (dd_keys d) \<Longrightarrow> distinct (dd_keys (dd_append d k x))"
  by (simp add: dd_keys_append)

lemma scan_csv_paths_distinct:
  "scan_csv_paths decimal ps d = Inr d' \<Longrightarrow> distinct (dd_keys d) \<Longrightarrow> distinct (dd_keys d')"
  by (induction ps arbitrary: d)
     (auto simp: Let_def distinct_dd_append split: if_splits sum.splits)

lemma copy_replicates_length:
  "copy_replicates B td rdir xs acc w = (Inr ps, w') \<Longrightarrow> length ps = length acc + length xs"
  by (induction xs arbitrary: acc w) (auto split: sum.splits prod.splits)

lemma length_upto_1: "length [1..int n] = n"
  by simp

lemma dd_getitem_present:
  "map_of d k = Some v \<Longrightarrow> dd_getitem d k = (v, d)"
  by (simp add: dd_getitem_def)

lemma dd_keys_setitem:
  "k \<in> set (dd_keys d) \<Longrightarrow> dd_keys (dd_setitem d k v) = dd_keys d"
  by (auto simp: dd_keys_def dd_setitem_def update_keys)

lemma map_of_dd_setitem:
  "map_of (dd_setitem d k v) = (map_of d)(k \<mapsto> v)"
  by (simp add: dd_setitem_def update_conv')

lemma in_dd_keys_iff: "k \<in> set (dd_keys d) \<longleftrightarrow> map_of d k \<noteq> None"
  by (simp add: dd_keys_def map_of_eq_None_iff)

lemma copy_train_durs_shape:
  assumes "copy_train_durs B res ks d w = (Inr d', w')" and "set ks \<subseteq> set (dd_keys d)"
  shows "dd_keys d' = dd_keys d
       \<and> (\<forall>k v. map_of d k = Some v \<longrightarrow> (\<exists>v'. map_of d' k = Some v' \<and> length v' = length v))"
  using assms
proof (induction ks arbitrary: d w)
  case Nil
  then show ?case by simp
next
  case (Cons k ks)
  from Cons.prems(2) obtain v where v: "map_of d k = Some v"
    by (auto simp: in_dd_keys_iff)
  define rdir where "rdir = joinpath res ((ascii ''train_dur_'') @ str_int k @ (ascii ''s''))"
  from Cons.prems(1) v obtain w1 ps w2 where
    s1: "copy_replicates B k rdir (zip [1..int (length v)] v) [] w1 = (Inr ps, w2)"
    and s2: "copy_train_durs B res ks (dd_setitem d k ps) w2 = (Inr d', w')"
    by (auto simp: Let_def rdir_def dd_getitem_present split: sum.splits prod.splits)
  have lps: "length ps = length v"
    using copy_replicates_length [OF s1] by simp
  have kk: "k \<in> set (dd_keys d)"
    using v by (simp add: in_dd_keys_iff)
  have sub: "set ks \<subseteq> set (dd_keys (dd_setitem d k ps))"
    using Cons.prems(2) kk by (simp add: dd_keys_setitem)
  note ih = Cons.IH [OF s2 sub]
  show ?case
  proof (intro conjI allI impI)
    show "dd_keys d' = dd_keys d"
      using ih kk by (simp add: dd_keys_setitem)
  next
    fix ka va
    assume a: "map_of d ka = Some va"
    show "\<exists>v'. map_of d' ka = Some v' \<and> length v' = length va"
    proof (cases "ka = k")
      case True
      with a v have "va = v" by simp
      moreover have "map_of (dd_setitem d k ps) k = Some ps"
        by (simp add: map_of_dd_setitem)
      ultimately show ?thesis
        using ih lps True by fastforce
    next
      case False
      with a have "map_of (dd_setitem d k ps) ka = Some va"
        by (simp add: map_of_dd_setitem)
      with ih show ?thesis by blast
    qed
  qed
qed

subsection \<open>Worlds only grow\<close>

lemma grows_refl: "grows w w"
  by (simp add: grows_def)

lemma grows_trans: "grows w w' \<Longrightarrow> grows w' w'' \<Longrightarrow> grows w w''"
  by (simp add: grows_def)

lemma grows_store: "grows w (store p n w)"
  by (simp add: grows_def lookup_store)

lemma grows_env: "grows w (w\<lparr>env := r\<rparr>)"
  by (simp add: grows_def lookup_env_update)

lemma grows_lookup: "grows w w' \<Longrightarrow> lookup w' x = None \<Longrightarrow> lookup w x = None"
  by (auto simp: grows_def)

lemma mkdir_grows: "mkdir p w = (r, w') \<Longrightarrow> grows w w'"
  by (auto dest!: mkdir_cases simp: grows_refl grows_store)

lemma write_file_grows: "write_file p c w = (r, w') \<Longrightarrow> grows w w'"
  by (auto dest!: write_file_cases simp: grows_refl grows_store)

lemma np_save_grows: "np_save p a w = (r, w') \<Longrightarrow> grows w w'"
  by (auto simp: np_save_def Let_def dest: write_file_grows split: if_splits)

lemma to_csv_grows: "to_csv df p w = (r, w') \<Longrightarrow> grows w w'"
  by (auto simp: to_csv_def dest: write_file_grows)

lemma shutil_copy_grows: "shutil_copy src dst w = (r, w') \<Longrightarrow> grows w w'"
  by (auto dest!: shutil_copy_cases simp: grows_refl grows_store)

lemma save_vectors_grows: "save_vectors d vs w = (r, w') \<Longrightarrow> grows w w'"
proof (induction vs arbitrary: w)
  case Nil
  then show ?case by (simp add: grows_refl)
next
  case (Cons a vs)
  obtain vn v where a: "a = (vn, v)" by (cases a)
  obtain r1 w1 where s: "np_save (joinpath d (vn @ (ascii ''.npy''))) v w = (r1, w1)"
    by (cases "np_save (joinpath d (vn @ (ascii ''.npy''))) v w")
  show ?case
  proof (cases r1)
    case (Inl e)
    with Cons.prems a s np_save_grows [OF s] show ?thesis by simp
  next
    case (Inr u)
    with Cons.prems a s have "save_vectors d vs w1 = (r, w')" by simp
    from Cons.IH [OF this] np_save_grows [OF s] show ?thesis
      by (rule grows_trans [rotated])
  qed
qed

lemma copy_vectors_grows: "copy_vectors csv d vs w = (r, w') \<Longrightarrow> grows w w'"
proof (induction vs arbitrary: w)
  case Nil
  then show ?case by (simp add: grows_refl)
next
  case (Cons vn vs)
  define src where "src = joinpath (parent csv) (vn @ (ascii ''.npy''))"
  obtain r1 w1 where s: "shutil_copy src (joinpath d (name_of src)) w = (r1, w1)"
    by (cases "shutil_copy src (joinpath d (name_of src)) w")
  show ?case
  proof (cases r1)
    case (Inl e)
    with Cons.prems s shutil_copy_grows [OF s] show ?thesis
      by (simp add: Let_def src_def)
  next
    case (Inr u)
    with Cons.prems s have "copy_vectors csv d vs w1 = (r, w')"
      by (simp add: Let_def src_def)
    from Cons.IH [OF this] shutil_copy_grows [OF s] show ?thesis
      by (rule grows_trans [rotated])
  qed
qed

subsection \<open>Worlds extend; the body of the replicate loop of \<open>from_df\<close>\<close>

lemma extends_refl: "extends w w"
  by (simp add: extends_def grows_refl)

lemma extends_trans:
  assumes "extends w w'" and "extends w' w''"
  shows "extends w w''"
  unfolding extends_def
proof (intro conjI allI impI)
  show "grows w w''"
    using assms by (auto simp: extends_def intro: grows_trans)
next
  fix x assume p: "lookup w (parent x) \<noteq> None"
  with assms(1) have p': "lookup w' (parent x) \<noteq> None"
    by (auto simp: extends_def grows_def)
  from assms(1) p have a: "lookup w' x = lookup w x \<or> (lookup w x = None \<and> lookup w' x = Some Dir)"
    by (simp add: extends_def)
  from assms(2) p' have b: "lookup w'' x = lookup w' x \<or> (lookup w' x = None \<and> lookup w'' x = Some Dir)"
    by (simp add: extends_def)
  from a b show "lookup w'' x = lookup w x \<or> (lookup w x = None \<and> lookup w'' x = Some Dir)"
    by auto
qed

lemma extends_grows: "extends w w' \<Longrightarrow> grows w w'"
  by (simp add: extends_def)

lemma extends_env: "extends w (w\<lparr>env := r\<rparr>)"
  by (simp add: extends_def grows_env lookup_env_update)

lemma extends_store_fresh: "lookup w p = None \<Longrightarrow> extends w (store p Dir w)"
  by (auto simp: extends_def grows_store lookup_store)

lemma extends_store_child: "lookup w (parent p) = None \<Longrightarrow> extends w (store p n w)"
  by (auto simp: extends_def grows_store lookup_store)

lemma extends_lookup:
  "extends w w' \<Longrightarrow> lookup w x = Some n \<Longrightarrow> lookup w (parent x) \<noteq> None \<Longrightarrow> lookup w' x = Some n"
  by (auto simp: extends_def)

lemma extends_lookup_back:
  "extends w w' \<Longrightarrow> lookup w' x = Some n \<Longrightarrow> n \<noteq> Dir \<Longrightarrow> lookup w (parent x) \<noteq> None
   \<Longrightarrow> lookup w x = Some n"
  by (auto simp: extends_def)

lemma mkdir_extends: "mkdir p w = (Inr u, w') \<Longrightarrow> extends w w'"
  by (auto dest!: mkdir_cases simp: extends_store_fresh)

text \<open>What a successful pass through the body of the replicate loop of \<open>from_df\<close> does.\<close>

lemma save_three_vectors:
  assumes "save_vectors q [((ascii ''spect_id_vector''), a), ((ascii ''spect_inds_vector''), b), ((ascii ''x_inds''), c)] w
             = (Inr u, w')"
  shows "w' = store (joinpath q (ascii ''x_inds.npy'')) (NpyFile c)
               (store (joinpath q (ascii ''spect_inds_vector.npy'')) (NpyFile b)
                 (store (joinpath q (ascii ''spect_id_vector.npy'')) (NpyFile a) w))"
proof -
  have n: "np_save (joinpath q (v @ (ascii ''.npy''))) arr w0 = write_file (joinpath q (v @ (ascii ''.npy''))) (NpyFile arr) w0"
    for v arr and w0 :: "'a world"
    by (rule np_save_npy)
  obtain r1 w1 where s1: "write_file (joinpath q ((ascii ''spect_id_vector'') @ (ascii ''.npy''))) (NpyFile a) w = (r1, w1)"
    by (cases "write_file (joinpath q ((ascii ''spect_id_vector'') @ (ascii ''.npy''))) (NpyFile a) w")
  obtain r2 w2 where s2: "write_file (joinpath q ((ascii ''spect_inds_vector'') @ (ascii ''.npy''))) (NpyFile b) w1 = (r2, w2)"
    by (cases "write_file (joinpath q ((ascii ''spect_inds_vector'') @ (ascii ''.npy''))) (NpyFile b) w1")
  obtain r3 w3 where s3: "write_file (joinpath q ((ascii ''x_inds'') @ (ascii ''.npy''))) (NpyFile c) w2 = (r3, w3)"
    by (cases "write_file (joinpath q ((ascii ''x_inds'') @ (ascii ''.npy''))) (NpyFile c) w2")
  from assms s1 s2 s3 have ok: "r1 = Inr ()" "r2 = Inr ()" "r3 = Inr ()" "w' = w3"
    unfolding save_vectors.simps n by (auto split: sum.splits)
  from write_file_cases [OF s1] write_file_cases [OF s2] write_file_cases [OF s3] ok
  show ?thesis by auto
qed

lemma subset_replicate_success:
  fixes w :: "'r world"
  assumes run: "subset_replicate S B df csv ls td rdir rn d w = (Inr d', w')"
  defines "q \<equiv> joinpath rdir ((ascii ''replicate_'') @ str_int rn)"
  defines "csvp \<equiv> joinpath q (stem csv @ (ascii ''_train_dur_'') @ str_int td
                               @ (ascii ''s_replicate_'') @ str_int rn @ (ascii ''.csv''))"
  shows "\<exists>out r1 a b c r2.
           lookup w q = None \<and> lookup w (parent q) = Some Dir
         \<and> S (env w) (filter (\<lambda>r. split r = (ascii ''train'')) df) td ls = (Inr out, r1)
         \<and> B r1 (filter (\<lambda>r. split r = (ascii ''train'')) out) td = (Inr (a, b, c), r2)
         \<and> w' = store csvp
                  (CsvWritten (filter (\<lambda>r. split r = (ascii ''train'')) out
                            @ filter (\<lambda>r. split r = (ascii ''val'')) df
                            @ filter (\<lambda>r. split r = (ascii ''test'')) df))
                  (store (joinpath q (ascii ''x_inds.npy'')) (NpyFile c)
                    (store (joinpath q (ascii ''spect_inds_vector.npy'')) (NpyFile b)
                      (store (joinpath q (ascii ''spect_id_vector.npy'')) (NpyFile a)
                        ((store q Dir w)\<lparr>env := r2\<rparr>))))
         \<and> d' = dd_append d td csvp"
proof -
  obtain r0 w1 where m: "mkdir q w = (r0, w1)"
    by (cases "mkdir q w")
  with run have r0: "r0 = Inr ()"
    by (cases r0) (auto simp: subset_replicate_def Let_def q_def)
  from mkdir_cases [OF m] r0 have q: "lookup w q = None" "lookup w (parent q) = Some Dir"
    and w1: "w1 = store q Dir w"
    by auto
  have e1: "env w1 = env w"
    by (simp add: w1 env_store)
  obtain ro r1 where s: "S (env w) (filter (\<lambda>r. split r = (ascii ''train'')) df) td ls = (ro, r1)"
    by (cases "S (env w) (filter (\<lambda>r. split r = (ascii ''train'')) df) td ls")
  with run m r0 e1 obtain out where ro: "ro = Inr out"
    by (cases ro) (auto simp: subset_replicate_def Let_def q_def)
  obtain rb r2 where b: "B r1 (filter (\<lambda>r. split r = (ascii ''train'')) out) td = (rb, r2)"
    by (cases "B r1 (filter (\<lambda>r. split r = (ascii ''train'')) out) td")
  with run m r0 e1 s ro obtain a b' c where rb: "rb = Inr (a, b', c)"
    by (cases rb) (auto simp: subset_replicate_def Let_def q_def)
  obtain rs w2 where sv: "save_vectors q [((ascii ''spect_id_vector''), a), ((ascii ''spect_inds_vector''), b'),
       ((ascii ''x_inds''), c)] (w1\<lparr>env := r2\<rparr>) = (rs, w2)"
    by (cases "save_vectors q [((ascii ''spect_id_vector''), a), ((ascii ''spect_inds_vector''), b'),
       ((ascii ''x_inds''), c)] (w1\<lparr>env := r2\<rparr>)")
  with run m r0 e1 s ro b rb have rs: "rs = Inr ()"
    by (cases rs) (auto simp: subset_replicate_def Let_def q_def)
  note w2 = save_three_vectors [OF sv [unfolded rs]]
  define tbl where "tbl = filter (\<lambda>r. split r = (ascii ''train'')) out
                            @ filter (\<lambda>r. split r = (ascii ''val'')) df
                            @ filter (\<lambda>r. split r = (ascii ''test'')) df"
  obtain rc w3 where c: "to_csv tbl csvp w2 = (rc, w3)"
    by (cases "to_csv tbl csvp w2")
  with run m r0 e1 s ro b rb sv rs have fin: "rc = Inr ()" "w' = w3" "d' = dd_append d td csvp"
    by (cases rc; simp add: subset_replicate_def Let_def q_def csvp_def tbl_def)+
  from write_file_cases [OF c [unfolded to_csv_def]] fin have "w' = store csvp (CsvWritten tbl) w2"
    by auto
  with q s ro b rb w2 w1 fin show ?thesis
    unfolding tbl_def by blast
qed

lemma subset_replicate_extends:
  assumes "subset_replicate S B df csv ls td rdir rn d w = (Inr d', w')"
  shows "extends w w'"
proof -
  define q where "q = joinpath rdir ((ascii ''replicate_'') @ str_int rn)"
  define csvp where "csvp = joinpath q (stem csv @ (ascii ''_train_dur_'') @ str_int td
                               @ (ascii ''s_replicate_'') @ str_int rn @ (ascii ''.csv''))"
  from subset_replicate_success [OF assms, folded q_def, folded csvp_def]
  obtain tbl a b c r2 where q: "lookup w q = None"
    and w': "w' = store csvp tbl
                  (store (joinpath q (ascii ''x_inds.npy'')) (NpyFile c)
                    (store (joinpath q (ascii ''spect_inds_vector.npy'')) (NpyFile b)
                      (store (joinpath q (ascii ''spect_id_vector.npy'')) (NpyFile a)
                        ((store q Dir w)\<lparr>env := r2\<rparr>))))"
    by (elim exE conjE)
  have fr: "lookup w' x = lookup w x" if "x \<noteq> q" "parent x \<noteq> q" for x
    using that by (auto simp: w' csvp_def lookup_store lookup_env_update parent_joinpath)
  have q': "lookup w' q = Some Dir"
    by (simp add: w' csvp_def lookup_store lookup_env_update joinpath_not_self [symmetric])
  show ?thesis
    unfolding extends_def grows_def
  proof (intro conjI allI impI)
    fix x assume "lookup w x \<noteq> None"
    then show "lookup w' x \<noteq> None"
      by (simp add: w' lookup_store lookup_env_update)
  next
    fix x assume "lookup w (parent x) \<noteq> None"
    with q have "parent x \<noteq> q" by auto
    with fr q q' show "lookup w' x = lookup w x \<or> (lookup w x = None \<and> lookup w' x = Some Dir)"
      by (cases "x = q") auto
  qed
qed

lemma subset_replicate_table:
  assumes "subset_replicate S B df csv ls td rdir rn d w = (Inr d', w')"
  defines "q \<equiv> joinpath rdir ((ascii ''replicate_'') @ str_int rn)"
  defines "csvp \<equiv> joinpath q (stem csv @ (ascii ''_train_dur_'') @ str_int td
                               @ (ascii ''s_replicate_'') @ str_int rn @ (ascii ''.csv''))"
  shows "\<exists>r0 out r1. S r0 (filter (\<lambda>r. split r = (ascii ''train'')) df) td ls = (Inr out, r1)
           \<and> lookup w' csvp = Some (CsvWritten (filter (\<lambda>r. split r = (ascii ''train'')) out
                            @ filter (\<lambda>r. split r = (ascii ''val'')) df
                            @ filter (\<lambda>r. split r = (ascii ''test'')) df))"
    and "lookup w' q = Some Dir"
    and "lookup w q = None"
    and "d' = dd_append d td csvp"
proof -
  from subset_replicate_success [OF assms(1)] obtain out r1 a b c r2 where
    h: "lookup w q = None"
       "S (env w) (filter (\<lambda>r. split r = (ascii ''train'')) df) td ls = (Inr out, r1)"
       "w' = store csvp
                  (CsvWritten (filter (\<lambda>r. split r = (ascii ''train'')) out
                            @ filter (\<lambda>r. split r = (ascii ''val'')) df
                            @ filter (\<lambda>r. split r = (ascii ''test'')) df))
                  (store (joinpath q (ascii ''x_inds.npy'')) (NpyFile c)
                    (store (joinpath q (ascii ''spect_inds_vector.npy'')) (NpyFile b)
                      (store (joinpath q (ascii ''spect_id_vector.npy'')) (NpyFile a)
                        ((store q Dir w)\<lparr>env := r2\<rparr>))))"
       "d' = dd_append d td csvp"
    unfolding q_def csvp_def by blast
  from h(2,3) show "\<exists>r0 out r1. S r0 (filter (\<lambda>r. split r = (ascii ''train'')) df) td ls = (Inr out, r1)
           \<and> lookup w' csvp = Some (CsvWritten (filter (\<lambda>r. split r = (ascii ''train'')) out
                            @ filter (\<lambda>r. split r = (ascii ''val'')) df
                            @ filter (\<lambda>r. split r = (ascii ''test'')) df))"
    by (auto simp: lookup_store)
  from h(3) show "lookup w' q = Some Dir"
    by (simp add: lookup_store lookup_env_update csvp_def joinpath_def)
  from h(1) show "lookup w q = None" .
  from h(4) show "d' = dd_append d td csvp" .
qed

lemma subset_replicates_success:
  fixes w :: "'r world"
  assumes "subset_replicates S B df csv ls td rdir rs d w = (Inr d', w')"
  defines "Q \<equiv> \<lambda>rn. joinpath rdir ((ascii ''replicate_'') @ str_int rn)"
  defines "P \<equiv> \<lambda>rn. joinpath (Q rn) (stem csv @ (ascii ''_train_dur_'') @ str_int td
                               @ (ascii ''s_replicate_'') @ str_int rn @ (ascii ''.csv''))"
  shows "extends w w'"
    and "d' = foldl (\<lambda>d rn. dd_append d td (P rn)) d rs"
    and "\<forall>rn\<in>set rs. lookup w (Q rn) = None \<and> lookup w' (Q rn) \<noteq> None \<and>
           (\<exists>r0 out r1. S r0 (filter (\<lambda>r. split r = (ascii ''train'')) df) td ls = (Inr out, r1)
              \<and> lookup w' (P rn) = Some (CsvWritten (filter (\<lambda>r. split r = (ascii ''train'')) out
                            @ filter (\<lambda>r. split r = (ascii ''val'')) df
                            @ filter (\<lambda>r. split r = (ascii ''test'')) df)))"
  using assms(1)
proof (induction rs arbitrary: d w)
  case Nil
  {
    case 1 then show ?case by (simp add: extends_refl)
  next
    case 2 then show ?case by simp
  next
    case 3 then show ?case by simp
  }
next
  case (Cons rn rs)
  {
    case 1
    then obtain d1 w1 where
      h: "subset_replicate S B df csv ls td rdir rn d w = (Inr d1, w1)"
      and t: "subset_replicates S B df csv ls td rdir rs d1 w1 = (Inr d', w')"
      by (auto split: prod.splits sum.splits)
    from subset_replicate_extends [OF h] Cons.IH(1) [OF t] show ?case
      by (rule extends_trans)
  next
    case 2
    then obtain d1 w1 where
      h: "subset_replicate S B df csv ls td rdir rn d w = (Inr d1, w1)"
      and t: "subset_replicates S B df csv ls td rdir rs d1 w1 = (Inr d', w')"
      by (auto split: prod.splits sum.splits)
    from subset_replicate_table(4) [OF h] Cons.IH(2) [OF t] show ?case
      by (simp add: P_def Q_def)
  next
    case 3
    then obtain d1 w1 where
      h: "subset_replicate S B df csv ls td rdir rn d w = (Inr d1, w1)"
      and t: "subset_replicates S B df csv ls td rdir rs d1 w1 = (Inr d', w')"
      by (auto split: prod.splits sum.splits)
    note e1 = subset_replicate_extends [OF h]
    note e2 = Cons.IH(1) [OF t]
    from subset_replicate_table(1) [OF h] obtain r0 out r1 where
      tb: "S r0 (filter (\<lambda>r. split r = (ascii ''train'')) df) td ls = (Inr out, r1)"
          "lookup w1 (P rn) = Some (CsvWritten (filter (\<lambda>r. split r = (ascii ''train'')) out
                            @ filter (\<lambda>r. split r = (ascii ''val'')) df
                            @ filter (\<lambda>r. split r = (ascii ''test'')) df))"
      unfolding P_def Q_def by blast
    have par: "lookup w1 (parent (P rn)) \<noteq> None"
      using subset_replicate_table(2) [OF h] by (simp add: P_def Q_def parent_joinpath)
    have hd: "lookup w' (P rn) = Some (CsvWritten (filter (\<lambda>r. split r = (ascii ''train'')) out
                            @ filter (\<lambda>r. split r = (ascii ''val'')) df
                            @ filter (\<lambda>r. split r = (ascii ''test'')) df))"
      by (rule extends_lookup [OF e2 tb(2) par])
    have q0: "lookup w (Q rn) = None"
      using subset_replicate_table(3) [OF h] by (simp add: Q_def)
    have q1: "lookup w' (Q rn) \<noteq> None"
      using subset_replicate_table(2) [OF h] extends_grows [OF e2]
      by (auto simp: Q_def grows_def)
    have rest: "\<forall>rn\<in>set rs. lookup w (Q rn) = None \<and> lookup w' (Q rn) \<noteq> None \<and>
           (\<exists>r0 out r1. S r0 (filter (\<lambda>r. split r = (ascii ''train'')) df) td ls = (Inr out, r1)
              \<and> lookup w' (P rn) = Some (CsvWritten (filter (\<lambda>r. split r = (ascii ''train'')) out
                            @ filter (\<lambda>r. split r = (ascii ''val'')) df
                            @ filter (\<lambda>r. split r = (ascii ''test'')) df)))"
      using Cons.IH(3) [OF t] grows_lookup [OF extends_grows [OF e1]] by blast
    from tb(1) hd q0 q1 rest show ?case
      by auto
  }
qed

lemma foldl_dd_append:
  "map_of (foldl (\<lambda>d rn. dd_append d k (f rn)) d rs) =
     (if rs = [] then map_of d
      else (map_of d)(k \<mapsto> (case map_of d k of None \<Rightarrow> [] | Some v \<Rightarrow> v) @ map f rs))"
  "dd_keys (foldl (\<lambda>d rn. dd_append d k (f rn)) d rs) =
     (if rs = [] \<or> k \<in> set (dd_keys d) then dd_keys d else dd_keys d @ [k])"
proof (induction rs arbitrary: d)
  case Nil
  {
    case 1 show ?case by simp
  next
    case 2 show ?case by simp
  }
next
  case (Cons r rs)
  {
    case 1 show ?case
      by (auto simp: Cons.IH(1) map_of_dd_append fun_eq_iff split: option.splits)
  next
    case 2 show ?case
      by (auto simp: Cons.IH(2) dd_keys_append)
  }
qed

lemma upto_1_nonempty: "0 < n \<Longrightarrow> [1..n] \<noteq> []"
  by (simp add: upto.simps)

lemma upto_1_empty: "n \<le> 0 \<Longrightarrow> [1..n] = []"
  by (simp add: upto.simps)

lemma subset_train_durs_success:
  fixes w :: "'r world"
  assumes "subset_train_durs S B df csv ls n res durs d w = (Inr d', w')"
      and "\<forall>k\<in>set (dd_keys d). lookup w (train_dur_dir res k) \<noteq> None"
      and "distinct (dd_keys d)"
  shows "extends w w'
       \<and> distinct durs
       \<and> (\<forall>k\<in>set durs. lookup w (train_dur_dir res k) = None
             \<and> (\<forall>rn\<in>set [1..n]. lookup w (replicate_dir res k rn) = None))
       \<and> (0 < n \<longrightarrow> dd_keys d' = dd_keys d @ durs)
       \<and> (0 < n \<longrightarrow> (\<forall>k\<in>set durs. map_of d' k = Some (map (subset_csv_path csv res k) [1..n])))
       \<and> (n \<le> 0 \<longrightarrow> d' = d)
       \<and> (\<forall>k. k \<notin> set durs \<longrightarrow> map_of d' k = map_of d k)
       \<and> (\<forall>k\<in>set durs. \<forall>rn\<in>set [1..n].
            \<exists>r0 out r1. S r0 (filter (\<lambda>r. split r = (ascii ''train'')) df) k ls = (Inr out, r1)
              \<and> lookup w' (subset_csv_path csv res k rn)
                  = Some (CsvWritten (filter (\<lambda>r. split r = (ascii ''train'')) out
                            @ filter (\<lambda>r. split r = (ascii ''val'')) df
                            @ filter (\<lambda>r. split r = (ascii ''test'')) df)))"
  using assms
proof (induction durs arbitrary: d w)
  case Nil
  then show ?case by (simp add: extends_refl)
next
  case (Cons td durs)
  define tdir where "tdir = train_dur_dir res td"
  have tdir: "tdir = joinpath res ((ascii ''train_dur_'') @ str_int td @ (ascii ''s''))"
    by (simp add: tdir_def train_dur_dir_def)
  from Cons.prems(1) obtain w1 d1 w2 where
    m: "mkdir tdir w = (Inr (), w1)"
    and rp: "subset_replicates S B df csv ls td tdir [1..n] d w1 = (Inr d1, w2)"
    and rest: "subset_train_durs S B df csv ls n res durs d1 w2 = (Inr d', w')"
    unfolding tdir by (auto simp: Let_def split: prod.splits sum.splits)
  from mkdir_cases [OF m] have fresh: "lookup w tdir = None" and w1: "w1 = store tdir Dir w"
    by auto
  have e01: "extends w w1"
    by (rule mkdir_extends [OF m])
  note rs = subset_replicates_success [OF rp]
  have e12: "extends w1 w2" by (rule rs(1))
  have e02: "extends w w2" by (rule extends_trans [OF e01 e12])
  have td_new: "td \<notin> set (dd_keys d)"
    using Cons.prems(2) fresh by (auto simp: tdir_def)
  then have none: "map_of d td = None"
    by (simp add: in_dd_keys_iff)
  have P: "joinpath (joinpath tdir ((ascii ''replicate_'') @ str_int rn))
             (stem csv @ (ascii ''_train_dur_'') @ str_int td @ (ascii ''s_replicate_'') @ str_int rn @ (ascii ''.csv''))
           = subset_csv_path csv res td rn" for rn
    by (simp add: subset_csv_path_def replicate_dir_def tdir_def)
  have Q: "joinpath tdir ((ascii ''replicate_'') @ str_int rn) = replicate_dir res td rn" for rn
    by (simp add: replicate_dir_def tdir_def)
  have d1: "d1 = foldl (\<lambda>d rn. dd_append d td (subset_csv_path csv res td rn)) d [1..n]"
    by (rule rs(2) [unfolded Q, folded subset_csv_path_def])
  note rs3 = rs(3) [unfolded Q, folded subset_csv_path_def]
  have keys1: "dd_keys d1 = (if 0 < n then dd_keys d @ [td] else dd_keys d)"
    using td_new by (auto simp: d1 foldl_dd_append(2) upto_1_nonempty upto_1_empty)
  have map1: "map_of d1 = (if 0 < n then (map_of d)(td \<mapsto> map (subset_csv_path csv res td) [1..n])
                           else map_of d)"
    using none by (auto simp: d1 foldl_dd_append(1) upto_1_nonempty upto_1_empty)
  have tdir2: "lookup w2 tdir \<noteq> None"
    using extends_grows [OF e12] by (auto simp: grows_def w1 lookup_store)
  have inv1: "\<forall>k\<in>set (dd_keys d1). lookup w2 (train_dur_dir res k) \<noteq> None"
  proof
    fix k assume "k \<in> set (dd_keys d1)"
    then have "k = td \<or> k \<in> set (dd_keys d)"
      by (auto simp: keys1 split: if_splits)
    then show "lookup w2 (train_dur_dir res k) \<noteq> None"
    proof
      assume "k = td" with tdir2 show ?thesis by (simp add: tdir_def)
    next
      assume "k \<in> set (dd_keys d)"
      with Cons.prems(2) have "lookup w (train_dur_dir res k) \<noteq> None" by blast
      with extends_grows [OF e02] show ?thesis by (auto simp: grows_def)
    qed
  qed
  have dist1: "distinct (dd_keys d1)"
    using Cons.prems(3) td_new by (simp add: keys1)
  note ih = Cons.IH [OF rest inv1 dist1]
  have g02: "grows w w2" by (rule extends_grows [OF e02])
  have g01: "grows w w1" by (rule extends_grows [OF e01])
  have td_rest: "td \<notin> set durs"
  proof
    assume "td \<in> set durs"
    with ih have "lookup w2 (train_dur_dir res td) = None" by blast
    with tdir2 show False by (simp add: tdir_def)
  qed
  have c1: "extends w w'"
    using e02 ih by (blast intro: extends_trans)
  have c2: "distinct (td # durs)"
    using td_rest ih by simp
  have c3: "\<forall>k\<in>set (td # durs). lookup w (train_dur_dir res k) = None
             \<and> (\<forall>rn\<in>set [1..n]. lookup w (replicate_dir res k rn) = None)"
  proof
    fix k assume k: "k \<in> set (td # durs)"
    show "lookup w (train_dur_dir res k) = None
             \<and> (\<forall>rn\<in>set [1..n]. lookup w (replicate_dir res k rn) = None)"
    proof (cases "k = td")
      case True
      have "\<forall>rn\<in>set [1..n]. lookup w1 (replicate_dir res td rn) = None"
        using rs3 by blast
      with grows_lookup [OF g01] fresh True show ?thesis
        by (auto simp: tdir_def)
    next
      case False
      with k have "k \<in> set durs" by simp
      with ih have "lookup w2 (train_dur_dir res k) = None
             \<and> (\<forall>rn\<in>set [1..n]. lookup w2 (replicate_dir res k rn) = None)" by blast
      with grows_lookup [OF g02] show ?thesis by blast
    qed
  qed
  have c4: "0 < n \<longrightarrow> dd_keys d' = dd_keys d @ td # durs"
    using ih by (simp add: keys1)
  have c5: "0 < n \<longrightarrow> (\<forall>k\<in>set (td # durs).
              map_of d' k = Some (map (subset_csv_path csv res k) [1..n]))"
  proof (intro impI ballI)
    fix k assume n: "0 < n" and k: "k \<in> set (td # durs)"
    show "map_of d' k = Some (map (subset_csv_path csv res k) [1..n])"
    proof (cases "k = td")
      case True
      with td_rest ih have "map_of d' k = map_of d1 k" by blast
      with True n show ?thesis by (simp add: map1)
    next
      case False
      with k n ih show ?thesis by simp
    qed
  qed
  have c6: "n \<le> 0 \<longrightarrow> d' = d"
  proof
    assume n: "n \<le> 0"
    then have "d1 = d" by (simp add: d1 upto_1_empty)
    with ih n show "d' = d" by simp
  qed
  have c7: "\<forall>k. k \<notin> set (td # durs) \<longrightarrow> map_of d' k = map_of d k"
  proof (intro allI impI)
    fix k assume k: "k \<notin> set (td # durs)"
    with ih have "map_of d' k = map_of d1 k" by simp
    with k show "map_of d' k = map_of d k" by (simp add: map1)
  qed
  have c8: "\<forall>k\<in>set (td # durs). \<forall>rn\<in>set [1..n].
            \<exists>r0 out r1. S r0 (filter (\<lambda>r. split r = (ascii ''train'')) df) k ls = (Inr out, r1)
              \<and> lookup w' (subset_csv_path csv res k rn)
                  = Some (CsvWritten (filter (\<lambda>r. split r = (ascii ''train'')) out
                            @ filter (\<lambda>r. split r = (ascii ''val'')) df
                            @ filter (\<lambda>r. split r = (ascii ''test'')) df))"
  proof (intro ballI)
    fix k rn assume k: "k \<in> set (td # durs)" and rn: "rn \<in> set [1..n]"
    show "\<exists>r0 out r1. S r0 (filter (\<lambda>r. split r = (ascii ''train'')) df) k ls = (Inr out, r1)
              \<and> lookup w' (subset_csv_path csv res k rn)
                  = Some (CsvWritten (filter (\<lambda>r. split r = (ascii ''train'')) out
                            @ filter (\<lambda>r. split r = (ascii ''val'')) df
                            @ filter (\<lambda>r. split r = (ascii ''test'')) df))"
    proof (cases "k = td")
      case True
      from rs3 rn obtain r0 out r1 where
        s: "S r0 (filter (\<lambda>r. split r = (ascii ''train'')) df) td ls = (Inr out, r1)"
        and l: "lookup w2 (subset_csv_path csv res td rn)
                  = Some (CsvWritten (filter (\<lambda>r. split r = (ascii ''train'')) out
                            @ filter (\<lambda>r. split r = (ascii ''val'')) df
                            @ filter (\<lambda>r. split r = (ascii ''test'')) df))"
        and q2: "lookup w2 (replicate_dir res td rn) \<noteq> None"
        by blast
      have ex: "extends w2 w'" using ih by blast
      have "lookup w2 (parent (subset_csv_path csv res td rn)) \<noteq> None"
        using q2 by (simp add: subset_csv_path_def parent_joinpath)
      from extends_lookup [OF ex l this] s True show ?thesis by blast
    next
      case False
      with k rn ih show ?thesis by simp
    qed
  qed
  from c1 c2 c3 c4 c5 c6 c7 c8 show ?case by blast
qed

subsection \<open>The file system stays a tree; the legacy arrays\<close>

lemma wf_fs_tree_like: "wf_fs (fs w) \<Longrightarrow> tree_like w"
  unfolding wf_fs_def tree_like_def lookup_def parent_def list_all_iff
  by (auto dest!: map_of_SomeD)

lemma tree_like_env: "tree_like (w\<lparr>env := r\<rparr>) = tree_like w"
  by (simp add: tree_like_def lookup_env_update)

lemma tree_like_store:
  assumes "tree_like w" and "lookup w (parent p) = Some Dir" and "lookup w p \<noteq> Some Dir"
    and "p \<noteq> []"
  shows "tree_like (store p n w)"
  unfolding tree_like_def
proof (intro allI impI)
  fix x assume x: "lookup (store p n w) x \<noteq> None" "x \<noteq> []"
  have pp: "parent p \<noteq> p"
    using assms(4) by (simp add: parent_def) (metis append_butlast_last_id append_self_conv list.distinct(1))
  show "lookup (store p n w) (parent x) = Some Dir"
  proof (cases "x = p")
    case True
    with assms(2) pp show ?thesis by (simp add: lookup_store)
  next
    case False
    with x have "lookup w x \<noteq> None" by (simp add: lookup_store)
    with assms(1) x(2) have "lookup w (parent x) = Some Dir" by (simp add: tree_like_def)
    with assms(3) show ?thesis by (auto simp: lookup_store)
  qed
qed

lemma tree_like_fresh_child:
  "tree_like w \<Longrightarrow> lookup w q = None \<Longrightarrow> lookup w (joinpath q n) = None"
  unfolding tree_like_def
  by (metis joinpath_def option.distinct(1) parent_joinpath snoc_eq_iff_butlast)

lemma joinpath_nonempty: "joinpath p n \<noteq> []"
  by (simp add: joinpath_def)

lemma copy_three_vectors:
  fixes w :: "'r world"
  assumes run: "copy_vectors csv q [(ascii ''spect_id_vector''), (ascii ''spect_inds_vector''), (ascii ''x_inds'')] w
             = (Inr u, w')"
    and nd: "\<forall>v. lookup w (joinpath q v) \<noteq> Some Dir"
  shows "\<exists>l1 l2 l3 w1 w2.
           lookup w (joinpath (parent csv) (ascii ''spect_id_vector.npy'')) = Some l1 \<and> l1 \<noteq> Dir
         \<and> w1 = store (joinpath q (ascii ''spect_id_vector.npy'')) l1 w
         \<and> lookup w1 (joinpath (parent csv) (ascii ''spect_inds_vector.npy'')) = Some l2 \<and> l2 \<noteq> Dir
         \<and> w2 = store (joinpath q (ascii ''spect_inds_vector.npy'')) l2 w1
         \<and> lookup w2 (joinpath (parent csv) (ascii ''x_inds.npy'')) = Some l3 \<and> l3 \<noteq> Dir
         \<and> w' = store (joinpath q (ascii ''x_inds.npy'')) l3 w2"
proof -
  define s1 where "s1 = joinpath (parent csv) (ascii ''spect_id_vector.npy'')"
  define s2 where "s2 = joinpath (parent csv) (ascii ''spect_inds_vector.npy'')"
  define s3 where "s3 = joinpath (parent csv) (ascii ''x_inds.npy'')"
  have names: "name_of s1 = (ascii ''spect_id_vector.npy'')" "name_of s2 = (ascii ''spect_inds_vector.npy'')"
    "name_of s3 = (ascii ''x_inds.npy'')"
    by (simp_all add: s1_def s2_def s3_def name_of_joinpath)
  obtain r1 w1 where c1: "shutil_copy s1 (joinpath q (name_of s1)) w = (r1, w1)"
    by (cases "shutil_copy s1 (joinpath q (name_of s1)) w")
  obtain r2 w2 where c2: "shutil_copy s2 (joinpath q (name_of s2)) w1 = (r2, w2)"
    by (cases "shutil_copy s2 (joinpath q (name_of s2)) w1")
  obtain r3 w3 where c3: "shutil_copy s3 (joinpath q (name_of s3)) w2 = (r3, w3)"
    by (cases "shutil_copy s3 (joinpath q (name_of s3)) w2")
  from run c1 have ok1: "\<exists>p. r1 = Inr p"
    by (cases r1) (simp_all add: Let_def s1_def name_of_joinpath)
  from run c1 c2 ok1 have ok2: "\<exists>p. r2 = Inr p"
    by (cases r2) (auto simp: Let_def s1_def s2_def name_of_joinpath)
  from run c1 c2 c3 ok1 ok2 have ok3: "\<exists>p. r3 = Inr p" and ok4: "w' = w3"
    by (cases r3; auto simp: Let_def s1_def s2_def s3_def name_of_joinpath)+
  note ok = ok1 ok2 ok3 ok4
  have n1: "lookup w (joinpath q (name_of s1)) \<noteq> Some Dir"
    using nd by blast
  from shutil_copy_cases [OF c1] ok(1) n1 obtain l1 where
    l1: "lookup w s1 = Some l1" "l1 \<noteq> Dir" "w1 = store (joinpath q (name_of s1)) l1 w"
    by auto
  have nd1: "\<forall>v. lookup w1 (joinpath q v) \<noteq> Some Dir"
    using nd l1 by (simp add: lookup_store)
  then have n2: "lookup w1 (joinpath q (name_of s2)) \<noteq> Some Dir"
    by blast
  from shutil_copy_cases [OF c2] ok(2) n2 obtain l2 where
    l2: "lookup w1 s2 = Some l2" "l2 \<noteq> Dir" "w2 = store (joinpath q (name_of s2)) l2 w1"
    by auto
  have nd2: "\<forall>v. lookup w2 (joinpath q v) \<noteq> Some Dir"
    using nd1 l2 by (simp add: lookup_store)
  then have n3: "lookup w2 (joinpath q (name_of s3)) \<noteq> Some Dir"
    by blast
  from shutil_copy_cases [OF c3] ok(3) n3 obtain l3 where
    l3: "lookup w2 s3 = Some l3" "l3 \<noteq> Dir" "w3 = store (joinpath q (name_of s3)) l3 w2"
    by auto
  have "lookup w s1 = Some l1 \<and> l1 \<noteq> Dir
         \<and> w1 = store (joinpath q (name_of s1)) l1 w
         \<and> lookup w1 s2 = Some l2 \<and> l2 \<noteq> Dir
         \<and> w2 = store (joinpath q (name_of s2)) l2 w1
         \<and> lookup w2 s3 = Some l3 \<and> l3 \<noteq> Dir
         \<and> w' = store (joinpath q (name_of s3)) l3 w2"
    using l1 l2 l3 ok(4) by (intro conjI) simp_all
  then show ?thesis
    unfolding s1_def s2_def s3_def name_of_joinpath
    apply -
    apply (rule exI)+
    apply assumption
    done
qed

subsection \<open>The body of the replicate loop of \<open>from_dir\<close>\<close>

lemma parent_nonempty: "parent x \<noteq> [] \<Longrightarrow> x \<noteq> []"
  by (auto simp: parent_def)

lemma copy_replicate_success:
  fixes w :: "'r world"
  assumes run: "copy_replicate B td rdir rn csv w = (Inr p, w')" and tl: "tree_like w"
  defines "q \<equiv> joinpath rdir ((ascii ''replicate_'') @ str_int rn)"
  shows "\<exists>content df a b c r l1 l2 l3.
           lookup w q = None \<and> lookup w (parent q) = Some Dir
         \<and> p = joinpath q (name_of csv)
         \<and> lookup w csv = Some content \<and> content \<noteq> Dir \<and> read_csv csv w = Inr df
         \<and> B (env w) df td = (Inr (a, b, c), r)
         \<and> lookup w (joinpath (parent csv) (ascii ''spect_id_vector.npy'')) = Some l1 \<and> l1 \<noteq> Dir
         \<and> lookup w (joinpath (parent csv) (ascii ''spect_inds_vector.npy'')) = Some l2 \<and> l2 \<noteq> Dir
         \<and> lookup w (joinpath (parent csv) (ascii ''x_inds.npy'')) = Some l3 \<and> l3 \<noteq> Dir
         \<and> w' = store (joinpath q (ascii ''x_inds.npy'')) l3
                  (store (joinpath q (ascii ''spect_inds_vector.npy'')) l2
                    (store (joinpath q (ascii ''spect_id_vector.npy'')) l1
                      (store (joinpath q (ascii ''x_inds.npy'')) (NpyFile c)
                        (store (joinpath q (ascii ''spect_inds_vector.npy'')) (NpyFile b)
                          (store (joinpath q (ascii ''spect_id_vector.npy'')) (NpyFile a)
                            ((store p content (store q Dir w))\<lparr>env := r\<rparr>))))))"
proof -
  define dst where "dst = joinpath q (name_of csv)"
  obtain r0 w1 where m: "mkdir q w = (r0, w1)"
    by (cases "mkdir q w")
  with run have r0: "r0 = Inr ()"
    by (cases r0) (auto simp: copy_replicate_def Let_def q_def)
  from mkdir_cases [OF m] r0 have q: "lookup w q = None" "lookup w (parent q) = Some Dir"
    and w1: "w1 = store q Dir w"
    by auto
  obtain rc w2 where c: "shutil_copy csv dst w1 = (rc, w2)"
    by (cases "shutil_copy csv dst w1")
  with run m r0 obtain p' where rc: "rc = Inr p'"
    by (cases rc) (auto simp: copy_replicate_def Let_def q_def dst_def)
  have dst_new: "lookup w1 dst \<noteq> Some Dir"
    using tree_like_fresh_child [OF tl q(1), of "name_of csv"]
    by (simp add: w1 lookup_store dst_def joinpath_not_self)
  from shutil_copy_cases [OF c] rc dst_new obtain content where
    cs: "lookup w1 csv = Some content" "content \<noteq> Dir" "p' = dst" "w2 = store dst content w1"
    by auto
  have csv_q: "csv \<noteq> q"
    using cs(1,2) by (auto simp: w1 lookup_store)
  then have csv0: "lookup w csv = Some content"
    using cs(1) by (simp add: w1 lookup_store)
  have csv2: "lookup w2 csv = Some content"
    using cs(1) by (simp add: cs(4) lookup_store)
  have e2: "env w2 = env w"
    by (simp add: cs(4) w1 env_store)
  obtain rr where rd: "read_csv csv w2 = rr"
    by simp
  with run m r0 c rc obtain df where rr: "rr = Inr df"
    by (cases rr) (auto simp: copy_replicate_def Let_def q_def dst_def)
  from rd rr csv0 csv2 have content: "read_csv csv w = Inr df"
    by (simp add: read_csv_def read_file_def)
  obtain rb r where b: "B (env w) df td = (rb, r)"
    by (cases "B (env w) df td")
  with run m r0 c rc rd rr e2 obtain a b' c' where rb: "rb = Inr (a, b', c')"
    by (cases rb) (auto simp: copy_replicate_def Let_def q_def dst_def)
  obtain rs w3 where sv: "save_vectors q [((ascii ''spect_id_vector''), a), ((ascii ''spect_inds_vector''), b'),
       ((ascii ''x_inds''), c')] (w2\<lparr>env := r\<rparr>) = (rs, w3)"
    by (cases "save_vectors q [((ascii ''spect_id_vector''), a), ((ascii ''spect_inds_vector''), b'),
       ((ascii ''x_inds''), c')] (w2\<lparr>env := r\<rparr>)")
  with run m r0 c rc rd rr e2 b rb have rs: "rs = Inr ()"
    by (cases rs) (auto simp: copy_replicate_def Let_def q_def dst_def)
  note w3 = save_three_vectors [OF sv [unfolded rs]]
  obtain rv w4 where cv: "copy_vectors csv q [(ascii ''spect_id_vector''), (ascii ''spect_inds_vector''), (ascii ''x_inds'')] w3
      = (rv, w4)"
    by (cases "copy_vectors csv q [(ascii ''spect_id_vector''), (ascii ''spect_inds_vector''), (ascii ''x_inds'')] w3")
  with run m r0 c rc rd rr e2 b rb sv rs have fin: "rv = Inr ()" "w' = w4" "p = p'"
    by (cases rv; simp add: copy_replicate_def Let_def q_def dst_def)+
  have frame: "lookup w3 x = lookup w x" if "x \<noteq> q" "parent x \<noteq> q" for x
    using that
    by (auto simp: w3 cs(4) w1 lookup_store lookup_env_update dst_def dest: arg_cong [where f = parent]
        simp: parent_joinpath)
  have nd: "\<forall>v. lookup w3 (joinpath q v) \<noteq> Some Dir"
    using tree_like_fresh_child [OF tl q(1)] cs(2)
    by (auto simp: w3 cs(4) w1 lookup_store lookup_env_update dst_def joinpath_not_self)
  from copy_three_vectors [OF cv [unfolded fin(1)] nd] obtain l1 l2 l3 w5 w6 where
    l: "lookup w3 (joinpath (parent csv) (ascii ''spect_id_vector.npy'')) = Some l1" "l1 \<noteq> Dir"
       "w5 = store (joinpath q (ascii ''spect_id_vector.npy'')) l1 w3"
       "lookup w5 (joinpath (parent csv) (ascii ''spect_inds_vector.npy'')) = Some l2" "l2 \<noteq> Dir"
       "w6 = store (joinpath q (ascii ''spect_inds_vector.npy'')) l2 w5"
       "lookup w6 (joinpath (parent csv) (ascii ''x_inds.npy'')) = Some l3" "l3 \<noteq> Dir"
       "w4 = store (joinpath q (ascii ''x_inds.npy'')) l3 w6"
    by (elim exE conjE)
  have pc: "parent csv \<noteq> q"
  proof
    assume a: "parent csv = q"
    then have "csv \<noteq> []"
      using parent_nonempty [of csv] by (simp add: q_def joinpath_nonempty)
    with tl csv0 have "lookup w (parent csv) = Some Dir"
      by (simp add: tree_like_def)
    with a q(1) show False by simp
  qed
  have src: "lookup w3 (joinpath (parent csv) v) = Some n \<Longrightarrow> n \<noteq> Dir
             \<Longrightarrow> lookup w (joinpath (parent csv) v) = Some n" for v n
  proof -
    assume a: "lookup w3 (joinpath (parent csv) v) = Some n" "n \<noteq> Dir"
    have "joinpath (parent csv) v \<noteq> q"
    proof
      assume "joinpath (parent csv) v = q"
      with a(1) have "n = Dir"
        by (simp add: w3 cs(4) w1 lookup_store lookup_env_update dst_def joinpath_not_self [symmetric]
            joinpath_inject)
      with a(2) show False by simp
    qed
    with frame [of "joinpath (parent csv) v"] pc a(1) show ?thesis
      by (simp add: parent_joinpath)
  qed
  have l1: "lookup w (joinpath (parent csv) (ascii ''spect_id_vector.npy'')) = Some l1"
    by (rule src [OF l(1,2)])
  have "lookup w3 (joinpath (parent csv) (ascii ''spect_inds_vector.npy'')) = Some l2"
    using l(4) pc by (simp add: l(3) lookup_store joinpath_inject)
  then have l2: "lookup w (joinpath (parent csv) (ascii ''spect_inds_vector.npy'')) = Some l2"
    by (rule src [OF _ l(5)])
  have "lookup w3 (joinpath (parent csv) (ascii ''x_inds.npy'')) = Some l3"
    using l(7) pc by (simp add: l(6) l(3) lookup_store joinpath_inject)
  then have l3: "lookup w (joinpath (parent csv) (ascii ''x_inds.npy'')) = Some l3"
    by (rule src [OF _ l(8)])
  have "lookup w q = None \<and> lookup w (parent q) = Some Dir
         \<and> p = joinpath q (name_of csv)
         \<and> lookup w csv = Some content \<and> content \<noteq> Dir \<and> read_csv csv w = Inr df
         \<and> B (env w) df td = (Inr (a, b', c'), r)
         \<and> lookup w (joinpath (parent csv) (ascii ''spect_id_vector.npy'')) = Some l1 \<and> l1 \<noteq> Dir
         \<and> lookup w (joinpath (parent csv) (ascii ''spect_inds_vector.npy'')) = Some l2 \<and> l2 \<noteq> Dir
         \<and> lookup w (joinpath (parent csv) (ascii ''x_inds.npy'')) = Some l3 \<and> l3 \<noteq> Dir
         \<and> w' = store (joinpath q (ascii ''x_inds.npy'')) l3
                  (store (joinpath q (ascii ''spect_inds_vector.npy'')) l2
                    (store (joinpath q (ascii ''spect_id_vector.npy'')) l1
                      (store (joinpath q (ascii ''x_inds.npy'')) (NpyFile c')
                        (store (joinpath q (ascii ''spect_inds_vector.npy'')) (NpyFile b')
                          (store (joinpath q (ascii ''spect_id_vector.npy'')) (NpyFile a)
                            ((store p content (store q Dir w))\<lparr>env := r\<rparr>))))))"
    using q fin(2,3) cs(2,3) csv0 content b rb l1 l2 l3 l(2,5,8)
    by (intro conjI) (simp_all add: l(9) l(6) l(3) w3 cs(4) w1 dst_def)
  then show ?thesis
    apply -
    apply (rule exI)+
    apply assumption
    done
qed

lemma copy_replicate_facts:
  fixes w :: "'r world"
  assumes run: "copy_replicate B td rdir rn csv w = (Inr p, w')" and tl: "tree_like w"
  defines "q \<equiv> joinpath rdir ((ascii ''replicate_'') @ str_int rn)"
  shows "tree_like w'"
    and "extends w w'"
    and "lookup w q = None"
    and "lookup w' q = Some Dir"
    and "p = joinpath q (name_of csv)"
    and "\<forall>v\<in>set vector_files. \<exists>l. l \<noteq> Dir \<and> lookup w (joinpath (parent csv) v) = Some l
           \<and> lookup w' (joinpath q v) = Some l"
    and "\<forall>x. x \<noteq> q \<longrightarrow> parent x \<noteq> q \<longrightarrow> lookup w' x = lookup w x"
proof -
  from copy_replicate_success [OF run tl] obtain content df a b c r l1 l2 l3 where
    h: "lookup w q = None" "lookup w (parent q) = Some Dir"
       "p = joinpath q (name_of csv)"
       "lookup w csv = Some content"
       "lookup w (joinpath (parent csv) (ascii ''spect_id_vector.npy'')) = Some l1" "l1 \<noteq> Dir"
       "lookup w (joinpath (parent csv) (ascii ''spect_inds_vector.npy'')) = Some l2" "l2 \<noteq> Dir"
       "lookup w (joinpath (parent csv) (ascii ''x_inds.npy'')) = Some l3" "l3 \<noteq> Dir"
       "content \<noteq> Dir"
    and w': "w' = store (joinpath q (ascii ''x_inds.npy'')) l3
                  (store (joinpath q (ascii ''spect_inds_vector.npy'')) l2
                    (store (joinpath q (ascii ''spect_id_vector.npy'')) l1
                      (store (joinpath q (ascii ''x_inds.npy'')) (NpyFile c)
                        (store (joinpath q (ascii ''spect_inds_vector.npy'')) (NpyFile b)
                          (store (joinpath q (ascii ''spect_id_vector.npy'')) (NpyFile a)
                            ((store p content (store q Dir w))\<lparr>env := r\<rparr>))))))"
    unfolding q_def by (elim exE conjE)
  have qne: "q \<noteq> []"
    by (simp add: q_def joinpath_nonempty)
  have child: "lookup w (joinpath q v) = None" for v
    by (rule tree_like_fresh_child [OF tl h(1)])
  define w1 where "w1 = store q Dir w"
  define w2 where "w2 = (store p content w1)\<lparr>env := r\<rparr>"
  define w3 where "w3 = store (joinpath q (ascii ''spect_id_vector.npy'')) (NpyFile a) w2"
  define w4 where "w4 = store (joinpath q (ascii ''spect_inds_vector.npy'')) (NpyFile b) w3"
  define w5 where "w5 = store (joinpath q (ascii ''x_inds.npy'')) (NpyFile c) w4"
  define w6 where "w6 = store (joinpath q (ascii ''spect_id_vector.npy'')) l1 w5"
  define w7 where "w7 = store (joinpath q (ascii ''spect_inds_vector.npy'')) l2 w6"
  have w8: "w' = store (joinpath q (ascii ''x_inds.npy'')) l3 w7"
    by (simp add: w' w7_def w6_def w5_def w4_def w3_def w2_def w1_def)
  have t1: "tree_like w1"
    unfolding w1_def by (rule tree_like_store [OF tl h(2) _ qne]) (simp add: h(1))
  have q1: "lookup w1 q = Some Dir"
    by (simp add: w1_def lookup_store)
  have t2: "tree_like w2"
    unfolding w2_def tree_like_env
    by (rule tree_like_store [OF t1])
       (simp_all add: h(3) parent_joinpath q1 joinpath_nonempty w1_def lookup_store
          joinpath_not_self child)
  have q2: "lookup w2 q = Some Dir"
    by (simp add: w2_def w1_def lookup_store lookup_env_update h(3) joinpath_not_self [symmetric])
  have nd2: "lookup w2 (joinpath q v) \<noteq> Some Dir" for v
    by (simp add: w2_def w1_def lookup_store lookup_env_update h(3) h(11) joinpath_not_self child)
  have t3: "tree_like w3"
    unfolding w3_def
    by (rule tree_like_store [OF t2]) (simp_all add: parent_joinpath q2 nd2 joinpath_nonempty)
  have q3: "lookup w3 q = Some Dir"
    by (simp add: w3_def lookup_store q2 joinpath_not_self [symmetric])
  have nd3: "lookup w3 (joinpath q v) \<noteq> Some Dir" for v
    by (simp add: w3_def lookup_store nd2)
  have t4: "tree_like w4"
    unfolding w4_def
    by (rule tree_like_store [OF t3]) (simp_all add: parent_joinpath q3 nd3 joinpath_nonempty)
  have q4: "lookup w4 q = Some Dir"
    by (simp add: w4_def lookup_store q3 joinpath_not_self [symmetric])
  have nd4: "lookup w4 (joinpath q v) \<noteq> Some Dir" for v
    by (simp add: w4_def lookup_store nd3)
  have t5: "tree_like w5"
    unfolding w5_def
    by (rule tree_like_store [OF t4]) (simp_all add: parent_joinpath q4 nd4 joinpath_nonempty)
  have q5: "lookup w5 q = Some Dir"
    by (simp add: w5_def lookup_store q4 joinpath_not_self [symmetric])
  have nd5: "lookup w5 (joinpath q v) \<noteq> Some Dir" for v
    by (simp add: w5_def lookup_store nd4)
  have t6: "tree_like w6"
    unfolding w6_def
    by (rule tree_like_store [OF t5]) (simp_all add: parent_joinpath q5 nd5 joinpath_nonempty)
  have q6: "lookup w6 q = Some Dir"
    by (simp add: w6_def lookup_store q5 joinpath_not_self [symmetric])
  have nd6: "lookup w6 (joinpath q v) \<noteq> Some Dir" for v
    using h(6) by (simp add: w6_def lookup_store nd5)
  have t7: "tree_like w7"
    unfolding w7_def
    by (rule tree_like_store [OF t6]) (simp_all add: parent_joinpath q6 nd6 joinpath_nonempty)
  have q7: "lookup w7 q = Some Dir"
    by (simp add: w7_def lookup_store q6 joinpath_not_self [symmetric])
  have nd7: "lookup w7 (joinpath q v) \<noteq> Some Dir" for v
    using h(8) by (simp add: w7_def lookup_store nd6)
  show "tree_like w'"
    unfolding w8
    by (rule tree_like_store [OF t7]) (simp_all add: parent_joinpath q7 nd7 joinpath_nonempty)
  show fr: "\<forall>x. x \<noteq> q \<longrightarrow> parent x \<noteq> q \<longrightarrow> lookup w' x = lookup w x"
    by (auto simp: w' h(3) lookup_store lookup_env_update parent_joinpath)
  have q8: "lookup w' q = Some Dir"
    by (simp add: w8 lookup_store q7 joinpath_not_self [symmetric])
  show "extends w w'"
    unfolding extends_def grows_def
  proof (intro conjI allI impI)
    fix x assume "lookup w x \<noteq> None"
    then show "lookup w' x \<noteq> None"
      by (simp add: w' lookup_store lookup_env_update)
  next
    fix x assume a: "lookup w (parent x) \<noteq> None"
    with h(1) have "parent x \<noteq> q" by auto
    with fr h(1) q8 show "lookup w' x = lookup w x \<or> (lookup w x = None \<and> lookup w' x = Some Dir)"
      by (cases "x = q") auto
  qed
  show "lookup w q = None" by (rule h(1))
  show "lookup w' q = Some Dir"
    by (simp add: w8 lookup_store q7 joinpath_not_self [symmetric])
  show "p = joinpath q (name_of csv)" by (rule h(3))
  show "\<forall>v\<in>set vector_files. \<exists>l. l \<noteq> Dir \<and> lookup w (joinpath (parent csv) v) = Some l
           \<and> lookup w' (joinpath q v) = Some l"
    using h(5-10) by (simp add: vector_files_def w' lookup_store joinpath_inject)
qed

lemma exists_parent_not_fresh:
  assumes "tree_like w" and "lookup w csv \<noteq> None" and "lookup w q = None" and "q \<noteq> []"
  shows "parent csv \<noteq> q"
proof
  assume a: "parent csv = q"
  with assms(4) have "csv \<noteq> []"
    using parent_nonempty [of csv] by simp
  with assms(1,2) have "lookup w (parent csv) = Some Dir"
    by (simp add: tree_like_def)
  with a assms(3) show False by simp
qed

lemma copy_replicates_success:
  fixes w :: "'r world"
  assumes "copy_replicates B td rdir xs acc w = (Inr ps, w')"
    and "tree_like w"
    and "\<forall>(rn, csv)\<in>set xs. lookup w csv \<noteq> None"
  defines "Q \<equiv> \<lambda>rn. joinpath rdir ((ascii ''replicate_'') @ str_int rn)"
  shows "tree_like w' \<and> extends w w'
       \<and> ps = acc @ map (\<lambda>(rn, csv). joinpath (Q rn) (name_of csv)) xs
       \<and> (\<forall>(rn, csv)\<in>set xs. lookup w (Q rn) = None \<and> lookup w' (Q rn) \<noteq> None \<and>
            (\<forall>v\<in>set vector_files. \<exists>l. l \<noteq> Dir
                \<and> lookup w (joinpath (parent csv) v) = Some l
                \<and> lookup w' (joinpath (Q rn) v) = Some l))"
  using assms(1-3)
proof (induction xs arbitrary: acc w)
  case Nil
  then show ?case by (simp add: extends_refl)
next
  case (Cons x xs)
  obtain rn csv where x: "x = (rn, csv)" by (cases x)
  have Q: "joinpath rdir ((ascii ''replicate_'') @ str_int k) = Q k" for k
    by (simp add: Q_def)
  from Cons.prems(1) x obtain p w1 where
    h: "copy_replicate B td rdir rn csv w = (Inr p, w1)"
    and t: "copy_replicates B td rdir xs (acc @ [p]) w1 = (Inr ps, w')"
    by (auto split: prod.splits sum.splits)
  note f = copy_replicate_facts [OF h Cons.prems(2), unfolded Q]
  have g01: "grows w w1" by (rule extends_grows [OF f(2)])
  have ex1: "\<forall>(rn, csv)\<in>set xs. lookup w1 csv \<noteq> None"
    using Cons.prems(3) g01 by (auto simp: grows_def)
  note ih = Cons.IH [OF t f(1) ex1]
  have e1: "extends w1 w'" using ih by simp
  have g1: "grows w1 w'" by (rule extends_grows [OF e1])
  have qne: "Q rn \<noteq> []" by (simp add: Q_def joinpath_nonempty)
  have c1: "tree_like w'" using ih by simp
  have c2: "extends w w'" by (rule extends_trans [OF f(2) e1])
  have c3: "ps = acc @ map (\<lambda>(rn, csv). joinpath (Q rn) (name_of csv)) (x # xs)"
    using ih f(5) x by simp
  have head: "lookup w (Q rn) = None \<and> lookup w' (Q rn) \<noteq> None \<and>
            (\<forall>v\<in>set vector_files. \<exists>l. l \<noteq> Dir
                \<and> lookup w (joinpath (parent csv) v) = Some l
                \<and> lookup w' (joinpath (Q rn) v) = Some l)"
  proof (intro conjI ballI)
    show "lookup w (Q rn) = None" by (rule f(3))
    show "lookup w' (Q rn) \<noteq> None" using f(4) g1 by (auto simp: grows_def)
    fix v assume "v \<in> set vector_files"
    with f(6) obtain l where l: "l \<noteq> Dir" "lookup w (joinpath (parent csv) v) = Some l"
      "lookup w1 (joinpath (Q rn) v) = Some l"
      by auto
    have "lookup w1 (parent (joinpath (Q rn) v)) \<noteq> None"
      using f(4) by (simp add: parent_joinpath)
    from extends_lookup [OF e1 l(3) this] l(1,2)
    show "\<exists>l. l \<noteq> Dir \<and> lookup w (joinpath (parent csv) v) = Some l
                \<and> lookup w' (joinpath (Q rn) v) = Some l"
      by auto
  qed
  have tail: "\<forall>(rn', csv')\<in>set xs. lookup w (Q rn') = None \<and> lookup w' (Q rn') \<noteq> None \<and>
            (\<forall>v\<in>set vector_files. \<exists>l. l \<noteq> Dir
                \<and> lookup w (joinpath (parent csv') v) = Some l
                \<and> lookup w' (joinpath (Q rn') v) = Some l)"
  proof (intro ballI, clarify, intro conjI ballI)
    fix rn' csv' assume m: "(rn', csv') \<in> set xs"
    with ih have i: "lookup w1 (Q rn') = None" "lookup w' (Q rn') \<noteq> None"
      "\<forall>v\<in>set vector_files. \<exists>l. l \<noteq> Dir
                \<and> lookup w1 (joinpath (parent csv') v) = Some l
                \<and> lookup w' (joinpath (Q rn') v) = Some l"
      by auto
    show "lookup w (Q rn') = None" by (rule grows_lookup [OF g01 i(1)])
    show "lookup w' (Q rn') \<noteq> None" by (rule i(2))
    fix v assume "v \<in> set vector_files"
    with i(3) obtain l where l: "l \<noteq> Dir" "lookup w1 (joinpath (parent csv') v) = Some l"
      "lookup w' (joinpath (Q rn') v) = Some l"
      by auto
    have "lookup w csv' \<noteq> None" using Cons.prems(3) m by auto
    from exists_parent_not_fresh [OF Cons.prems(2) this f(3) qne]
    have pq: "parent (joinpath (parent csv') v) \<noteq> Q rn"
      by (simp add: parent_joinpath)
    have "joinpath (parent csv') v \<noteq> Q rn"
      using l(1,2) f(4) by auto
    with f(7) pq have "lookup w1 (joinpath (parent csv') v) = lookup w (joinpath (parent csv') v)"
      by simp
    with l show "\<exists>l. l \<noteq> Dir \<and> lookup w (joinpath (parent csv') v) = Some l
                \<and> lookup w' (joinpath (Q rn') v) = Some l"
      by auto
  qed
  from c1 c2 c3 head tail x show ?case
    by simp
qed

subsection \<open>The loop over the durations of \<open>from_dir\<close>\<close>

lemma exists_parent_exists:
  assumes "tree_like w" and "lookup w csv \<noteq> None"
  shows "lookup w (parent csv) \<noteq> None"
proof (cases "csv = []")
  case True
  with assms(2) show ?thesis by (simp add: parent_def)
next
  case False
  with assms show ?thesis by (simp add: tree_like_def)
qed

lemma copy_train_durs_success:
  fixes w :: "'r world"
  assumes "copy_train_durs B res ks d w = (Inr d', w')"
    and "tree_like w"
    and "distinct ks"
    and "set ks \<subseteq> set (dd_keys d)"
    and "\<forall>k\<in>set ks. \<forall>csvs. map_of d k = Some csvs \<longrightarrow> (\<forall>csv\<in>set csvs. lookup w csv \<noteq> None)"
  shows "tree_like w' \<and> extends w w'
       \<and> dd_keys d' = dd_keys d
       \<and> (\<forall>k. k \<notin> set ks \<longrightarrow> map_of d' k = map_of d k)
       \<and> (\<forall>k\<in>set ks. \<exists>csvs. map_of d k = Some csvs
             \<and> lookup w (train_dur_dir res k) = None
             \<and> map_of d' k = Some (map (\<lambda>(rn, csv). joinpath (replicate_dir res k rn) (name_of csv))
                                     (zip [1..int (length csvs)] csvs))
             \<and> (\<forall>(rn, csv)\<in>set (zip [1..int (length csvs)] csvs).
                  lookup w (replicate_dir res k rn) = None \<and>
                  (\<forall>v\<in>set vector_files. \<exists>l. l \<noteq> Dir
                      \<and> lookup w (joinpath (parent csv) v) = Some l
                      \<and> lookup w' (joinpath (replicate_dir res k rn) v) = Some l)))"
  using assms
proof (induction ks arbitrary: d w)
  case Nil
  then show ?case by (simp add: extends_refl)
next
  case (Cons k ks)
  define tdir where "tdir = train_dur_dir res k"
  have tdir: "tdir = joinpath res ((ascii ''train_dur_'') @ str_int k @ (ascii ''s''))"
    by (simp add: tdir_def train_dur_dir_def)
  have Q: "joinpath tdir ((ascii ''replicate_'') @ str_int rn) = replicate_dir res k rn" for rn
    by (simp add: replicate_dir_def tdir_def)
  from Cons.prems(4) obtain csvs where csvs: "map_of d k = Some csvs"
    by (auto simp: in_dd_keys_iff)
  define xs where "xs = zip [1..int (length csvs)] csvs"
  from Cons.prems(1) csvs obtain w1 ps w2 where
    m: "mkdir tdir w = (Inr (), w1)"
    and rp: "copy_replicates B k tdir xs [] w1 = (Inr ps, w2)"
    and rest: "copy_train_durs B res ks (dd_setitem d k ps) w2 = (Inr d', w')"
    unfolding tdir xs_def
    by (auto simp: Let_def dd_getitem_present split: prod.splits sum.splits)
  from mkdir_cases [OF m] have fresh: "lookup w tdir = None"
    and par: "lookup w (parent tdir) = Some Dir" and w1: "w1 = store tdir Dir w"
    by auto
  have e01: "extends w w1" by (rule mkdir_extends [OF m])
  have g01: "grows w w1" by (rule extends_grows [OF e01])
  have nd: "lookup w tdir \<noteq> Some Dir" using fresh by simp
  have ne: "tdir \<noteq> []" by (simp add: tdir_def train_dur_dir_def joinpath_nonempty)
  have t1: "tree_like w1"
    unfolding w1 by (rule tree_like_store [OF Cons.prems(2) par nd ne])
  have ex0: "\<forall>csv\<in>set csvs. lookup w csv \<noteq> None"
    using Cons.prems(5) csvs by auto
  have ex1: "\<forall>(rn, csv)\<in>set xs. lookup w1 csv \<noteq> None"
    using ex0 g01 by (auto simp: xs_def grows_def dest: set_zip_rightD)
  note cr = copy_replicates_success [OF rp t1 ex1, unfolded Q]
  have t2: "tree_like w2" and e12: "extends w1 w2" using cr by simp_all
  have ps: "ps = map (\<lambda>(rn, csv). joinpath (replicate_dir res k rn) (name_of csv)) xs"
    using cr by simp
  have e02: "extends w w2" by (rule extends_trans [OF e01 e12])
  have g02: "grows w w2" by (rule extends_grows [OF e02])
  have kk: "k \<in> set (dd_keys d)" using Cons.prems(4) by simp
  have k_rest: "k \<notin> set ks" using Cons.prems(3) by simp
  define d1 where "d1 = dd_setitem d k ps"
  have keys1: "dd_keys d1 = dd_keys d"
    using kk by (simp add: d1_def dd_keys_setitem)
  have map1: "map_of d1 = (map_of d)(k \<mapsto> ps)"
    by (simp add: d1_def map_of_dd_setitem)
  have sub1: "set ks \<subseteq> set (dd_keys d1)"
    using Cons.prems(4) by (simp add: keys1)
  have exr: "\<forall>k'\<in>set ks. \<forall>csvs. map_of d1 k' = Some csvs \<longrightarrow> (\<forall>csv\<in>set csvs. lookup w2 csv \<noteq> None)"
  proof (intro ballI allI impI)
    fix k' csvs' csv assume a: "k' \<in> set ks" "map_of d1 k' = Some csvs'" "csv \<in> set csvs'"
    from a(1) k_rest have "k' \<noteq> k" by auto
    with a(2) have "map_of d k' = Some csvs'" by (simp add: map1)
    with Cons.prems(5) a have "lookup w csv \<noteq> None" by auto
    with g02 show "lookup w2 csv \<noteq> None" by (auto simp: grows_def)
  qed
  have dist: "distinct ks" using Cons.prems(3) by simp
  note ih = Cons.IH [OF rest [folded d1_def] t2 dist sub1 exr]
  have e2: "extends w2 w'" using ih by simp
  have c1: "tree_like w'" using ih by simp
  have c2: "extends w w'" by (rule extends_trans [OF e02 e2])
  have c3: "dd_keys d' = dd_keys d" using ih keys1 by simp
  have c4: "\<forall>k'. k' \<notin> set (k # ks) \<longrightarrow> map_of d' k' = map_of d k'"
    using ih by (simp add: map1)
  have pull: "lookup w x = Some l"
    if "lookup w2 x = Some l" "l \<noteq> Dir" "lookup w (parent x) \<noteq> None" for x l
    by (rule extends_lookup_back [OF e02 that])
  have head: "\<exists>csvs. map_of d k = Some csvs
             \<and> lookup w (train_dur_dir res k) = None
             \<and> map_of d' k = Some (map (\<lambda>(rn, csv). joinpath (replicate_dir res k rn) (name_of csv))
                                     (zip [1..int (length csvs)] csvs))
             \<and> (\<forall>(rn, csv)\<in>set (zip [1..int (length csvs)] csvs).
                  lookup w (replicate_dir res k rn) = None \<and>
                  (\<forall>v\<in>set vector_files. \<exists>l. l \<noteq> Dir
                      \<and> lookup w (joinpath (parent csv) v) = Some l
                      \<and> lookup w' (joinpath (replicate_dir res k rn) v) = Some l))"
  proof (intro exI [of _ csvs] conjI)
    show "map_of d k = Some csvs" by (rule csvs)
    show "lookup w (train_dur_dir res k) = None" using fresh by (simp add: tdir_def)
    have "map_of d' k = map_of d1 k" using ih k_rest by simp
    then show "map_of d' k = Some (map (\<lambda>(rn, csv). joinpath (replicate_dir res k rn) (name_of csv))
                                     (zip [1..int (length csvs)] csvs))"
      by (simp add: map1 ps xs_def)
    show "\<forall>(rn, csv)\<in>set (zip [1..int (length csvs)] csvs).
                  lookup w (replicate_dir res k rn) = None \<and>
                  (\<forall>v\<in>set vector_files. \<exists>l. l \<noteq> Dir
                      \<and> lookup w (joinpath (parent csv) v) = Some l
                      \<and> lookup w' (joinpath (replicate_dir res k rn) v) = Some l)"
    proof (intro ballI, clarify, intro conjI ballI)
      fix rn csv assume mem: "(rn, csv) \<in> set (zip [1..int (length csvs)] csvs)"
      then have mx: "(rn, csv) \<in> set xs" by (simp add: xs_def)
      with cr have i: "lookup w1 (replicate_dir res k rn) = None"
        "lookup w2 (replicate_dir res k rn) \<noteq> None"
        "\<forall>v\<in>set vector_files. \<exists>l. l \<noteq> Dir
                \<and> lookup w1 (joinpath (parent csv) v) = Some l
                \<and> lookup w2 (joinpath (replicate_dir res k rn) v) = Some l"
        by auto
      show "lookup w (replicate_dir res k rn) = None"
        by (rule grows_lookup [OF g01 i(1)])
      fix v assume "v \<in> set vector_files"
      with i(3) obtain l where l: "l \<noteq> Dir" "lookup w1 (joinpath (parent csv) v) = Some l"
        "lookup w2 (joinpath (replicate_dir res k rn) v) = Some l"
        by auto
      have "csv \<in> set csvs" using mem by (rule set_zip_rightD)
      with ex0 have "lookup w csv \<noteq> None" by simp
      from exists_parent_exists [OF Cons.prems(2) this]
      have pe: "lookup w (parent (joinpath (parent csv) v)) \<noteq> None"
        by (simp add: parent_joinpath)
      have s0: "lookup w (joinpath (parent csv) v) = Some l"
        by (rule extends_lookup_back [OF e01 l(2) l(1) pe])
      have "lookup w2 (parent (joinpath (replicate_dir res k rn) v)) \<noteq> None"
        using i(2) by (simp add: parent_joinpath)
      from extends_lookup [OF e2 l(3) this] l(1) s0
      show "\<exists>l. l \<noteq> Dir \<and> lookup w (joinpath (parent csv) v) = Some l
                \<and> lookup w' (joinpath (replicate_dir res k rn) v) = Some l"
        by auto
    qed
  qed
  have tail: "\<forall>k'\<in>set ks. \<exists>csvs. map_of d k' = Some csvs
             \<and> lookup w (train_dur_dir res k') = None
             \<and> map_of d' k' = Some (map (\<lambda>(rn, csv). joinpath (replicate_dir res k' rn) (name_of csv))
                                     (zip [1..int (length csvs)] csvs))
             \<and> (\<forall>(rn, csv)\<in>set (zip [1..int (length csvs)] csvs).
                  lookup w (replicate_dir res k' rn) = None \<and>
                  (\<forall>v\<in>set vector_files. \<exists>l. l \<noteq> Dir
                      \<and> lookup w (joinpath (parent csv) v) = Some l
                      \<and> lookup w' (joinpath (replicate_dir res k' rn) v) = Some l))"
  proof
    fix k' assume k': "k' \<in> set ks"
    with ih obtain csvs' where c:
      "map_of d1 k' = Some csvs'"
      "lookup w2 (train_dur_dir res k') = None"
      "map_of d' k' = Some (map (\<lambda>(rn, csv). joinpath (replicate_dir res k' rn) (name_of csv))
                                     (zip [1..int (length csvs')] csvs'))"
      "\<forall>(rn, csv)\<in>set (zip [1..int (length csvs')] csvs').
                  lookup w2 (replicate_dir res k' rn) = None \<and>
                  (\<forall>v\<in>set vector_files. \<exists>l. l \<noteq> Dir
                      \<and> lookup w2 (joinpath (parent csv) v) = Some l
                      \<and> lookup w' (joinpath (replicate_dir res k' rn) v) = Some l)"
      by blast
    from k' k_rest have ne: "k' \<noteq> k" by auto
    with c(1) have m0: "map_of d k' = Some csvs'" by (simp add: map1)
    have ex': "\<forall>csv\<in>set csvs'. lookup w csv \<noteq> None"
      using Cons.prems(5) k' m0 by auto
    show "\<exists>csvs. map_of d k' = Some csvs
             \<and> lookup w (train_dur_dir res k') = None
             \<and> map_of d' k' = Some (map (\<lambda>(rn, csv). joinpath (replicate_dir res k' rn) (name_of csv))
                                     (zip [1..int (length csvs)] csvs))
             \<and> (\<forall>(rn, csv)\<in>set (zip [1..int (length csvs)] csvs).
                  lookup w (replicate_dir res k' rn) = None \<and>
                  (\<forall>v\<in>set vector_files. \<exists>l. l \<noteq> Dir
                      \<and> lookup w (joinpath (parent csv) v) = Some l
                      \<and> lookup w' (joinpath (replicate_dir res k' rn) v) = Some l))"
    proof (intro exI [of _ csvs'] conjI)
      show "map_of d k' = Some csvs'" by (rule m0)
      show "lookup w (train_dur_dir res k') = None" by (rule grows_lookup [OF g02 c(2)])
      show "map_of d' k' = Some (map (\<lambda>(rn, csv). joinpath (replicate_dir res k' rn) (name_of csv))
                                     (zip [1..int (length csvs')] csvs'))" by (rule c(3))
      show "\<forall>(rn, csv)\<in>set (zip [1..int (length csvs')] csvs').
                  lookup w (replicate_dir res k' rn) = None \<and>
                  (\<forall>v\<in>set vector_files. \<exists>l. l \<noteq> Dir
                      \<and> lookup w (joinpath (parent csv) v) = Some l
                      \<and> lookup w' (joinpath (replicate_dir res k' rn) v) = Some l)"
      proof (intro ballI, clarify, intro conjI ballI)
        fix rn csv assume mem: "(rn, csv) \<in> set (zip [1..int (length csvs')] csvs')"
        with c(4) have i: "lookup w2 (replicate_dir res k' rn) = None"
          "\<forall>v\<in>set vector_files. \<exists>l. l \<noteq> Dir
                      \<and> lookup w2 (joinpath (parent csv) v) = Some l
                      \<and> lookup w' (joinpath (replicate_dir res k' rn) v) = Some l"
          by auto
        show "lookup w (replicate_dir res k' rn) = None" by (rule grows_lookup [OF g02 i(1)])
        fix v assume "v \<in> set vector_files"
        with i(2) obtain l where l: "l \<noteq> Dir" "lookup w2 (joinpath (parent csv) v) = Some l"
          "lookup w' (joinpath (replicate_dir res k' rn) v) = Some l"
          by auto
        have "csv \<in> set csvs'" using mem by (rule set_zip_rightD)
        with ex' have "lookup w csv \<noteq> None" by simp
        from exists_parent_exists [OF Cons.prems(2) this]
        have pe: "lookup w (parent (joinpath (parent csv) v)) \<noteq> None"
          by (simp add: parent_joinpath)
        from pull [OF l(2) l(1) pe] l(1,3)
        show "\<exists>l. l \<noteq> Dir \<and> lookup w (joinpath (parent csv) v) = Some l
                \<and> lookup w' (joinpath (replicate_dir res k' rn) v) = Some l"
          by auto
      qed
    qed
  qed
  from c1 c2 c3 c4 head tail show ?case
    by simp
qed

subsection \<open>What a successful \<open>from_dir\<close> has checked and created\<close>

lemma glob_exists: "p \<in> set (glob_CSV_GLOB f root) \<Longrightarrow> map_of f p \<noteq> None"
  by (auto simp: glob_CSV_GLOB_def map_of_eq_None_iff)

lemma scan_csv_paths_values:
  "scan_csv_paths decimal ps d = Inr d' \<Longrightarrow> map_of d' k = Some v \<Longrightarrow> x \<in> set v
   \<Longrightarrow> x \<in> set ps \<or> (\<exists>v0. map_of d k = Some v0 \<and> x \<in> set v0)"
proof (induction ps arbitrary: d)
  case Nil
  then show ?case by simp
next
  case (Cons p ps)
  from Cons.prems(1) obtain td where
    t: "scan_csv_paths decimal ps (dd_append d td p) = Inr d'"
    by (auto simp: Let_def split: if_splits sum.splits)
  from Cons.IH [OF t Cons.prems(2,3)] show ?case
    by (auto simp: map_of_dd_append split: if_splits option.splits)
qed

lemma from_dir_success:
  assumes "from_dir decimal B prev durs tb n res ws sk tk lm w = (Inr m, w')"
  shows "\<exists>m0. scan_csv_paths decimal (sort (glob_CSV_GLOB (fs w) prev)) [] = Inr m0
           \<and> sort (dd_keys m0) = sort durs
           \<and> list_all (\<lambda>csv_paths. int (length csv_paths) = n) (dd_values m0)
           \<and> copy_train_durs (\<lambda>r df crop_dur. B r df ws sk tk crop_dur tb lm) res (dd_keys m0) m0 w
               = (Inr m, w')"
  using assms
  by (auto simp: from_dir_def Let_def split: sum.splits if_splits)

lemma sort_eq_set: "sort xs = sort ys \<Longrightarrow> set xs = set ys"
  by (metis set_sort)

lemma sort_eq_distinct: "sort xs = sort ys \<Longrightarrow> distinct xs \<Longrightarrow> distinct ys"
  by (metis distinct_sort)

lemma dd_values_length:
  "list_all (\<lambda>v. int (length v) = n) (dd_values d) \<Longrightarrow> map_of d k = Some v \<Longrightarrow> int (length v) = n"
  by (auto simp: dd_values_def list_all_iff dest!: map_of_SomeD)

lemma from_dir_manifest:
  assumes "from_dir decimal B prev durs tb n res ws sk tk lm w = (Inr m, w')"
  shows "\<exists>m0. scan_csv_paths decimal (sort (glob_CSV_GLOB (fs w) prev)) [] = Inr m0
           \<and> copy_train_durs (\<lambda>r df crop_dur. B r df ws sk tk crop_dur tb lm) res (dd_keys m0) m0 w
               = (Inr m, w')
           \<and> distinct (dd_keys m0) \<and> set (dd_keys m0) = set durs \<and> distinct durs
           \<and> (\<forall>k v. map_of m0 k = Some v \<longrightarrow> int (length v) = n)
           \<and> (\<forall>k v. map_of m0 k = Some v \<longrightarrow> (\<forall>csv\<in>set v. lookup w csv \<noteq> None))"
proof -
  from from_dir_success [OF assms] obtain m0 where
    h: "scan_csv_paths decimal (sort (glob_CSV_GLOB (fs w) prev)) [] = Inr m0"
       "sort (dd_keys m0) = sort durs"
       "list_all (\<lambda>csv_paths. int (length csv_paths) = n) (dd_values m0)"
       "copy_train_durs (\<lambda>r df crop_dur. B r df ws sk tk crop_dur tb lm) res (dd_keys m0) m0 w
               = (Inr m, w')"
    by blast
  have d: "distinct (dd_keys m0)"
    using scan_csv_paths_distinct [OF h(1)] by (simp add: dd_keys_def)
  have ex: "\<forall>k v. map_of m0 k = Some v \<longrightarrow> (\<forall>csv\<in>set v. lookup w csv \<noteq> None)"
  proof (intro allI impI ballI)
    fix k v csv assume "map_of m0 k = Some v" "csv \<in> set v"
    from scan_csv_paths_values [OF h(1) this] have "csv \<in> set (glob_CSV_GLOB (fs w) prev)"
      by simp
    then show "lookup w csv \<noteq> None"
      by (simp add: lookup_def glob_exists)
  qed
  from h d ex sort_eq_set [OF h(2)] sort_eq_distinct [OF h(2) d] dd_values_length [OF h(3)]
  show ?thesis
    by (intro exI [of _ m0]) simp
qed

lemma copy_replicate_grows:
  assumes "copy_replicate B td rdir rn csv w = (r, w')"
  shows "grows w w'"
proof -
  define q where "q = joinpath rdir ((ascii ''replicate_'') @ str_int rn)"
  obtain r0 w1 where m: "mkdir q w = (r0, w1)" by (cases "mkdir q w")
  note g1 = mkdir_grows [OF m]
  show ?thesis
  proof (cases r0)
    case (Inl e)
    with assms m g1 show ?thesis by (simp add: copy_replicate_def Let_def q_def)
  next
    case (Inr u)
    obtain rc w2 where c: "shutil_copy csv (joinpath q (name_of csv)) w1 = (rc, w2)"
      by (cases "shutil_copy csv (joinpath q (name_of csv)) w1")
    have g2: "grows w w2" by (rule grows_trans [OF g1 shutil_copy_grows [OF c]])
    show ?thesis
    proof (cases rc)
      case (Inl e)
      with assms m Inr c g2 show ?thesis by (simp add: copy_replicate_def Let_def q_def)
    next
      case rcr: (Inr p)
      show ?thesis
      proof (cases "read_csv csv w2")
        case (Inl e)
        with assms m Inr c rcr g2 show ?thesis by (simp add: copy_replicate_def Let_def q_def)
      next
        case rd: (Inr df)
        obtain rb r1 where b: "B (env w2) df td = (rb, r1)" by (cases "B (env w2) df td")
        have g3: "grows w (w2\<lparr>env := r1\<rparr>)" by (rule grows_trans [OF g2 grows_env])
        show ?thesis
        proof (cases rb)
          case (Inl e)
          with assms m Inr c rcr rd b g3 show ?thesis by (simp add: copy_replicate_def Let_def q_def)
        next
          case rbr: (Inr abc)
          obtain a b' c' where abc: "abc = (a, b', c')" by (cases abc)
          obtain rs w3 where sv: "save_vectors q [((ascii ''spect_id_vector''), a), ((ascii ''spect_inds_vector''), b'),
              ((ascii ''x_inds''), c')] (w2\<lparr>env := r1\<rparr>) = (rs, w3)"
            by (cases "save_vectors q [((ascii ''spect_id_vector''), a), ((ascii ''spect_inds_vector''), b'),
              ((ascii ''x_inds''), c')] (w2\<lparr>env := r1\<rparr>)")
          have g4: "grows w w3" by (rule grows_trans [OF g3 save_vectors_grows [OF sv]])
          show ?thesis
          proof (cases rs)
            case (Inl e)
            with assms m Inr c rcr rd b rbr abc sv g4 show ?thesis
              by (simp add: copy_replicate_def Let_def q_def)
          next
            case rsr: (Inr u')
            obtain rv w4 where cv: "copy_vectors csv q [(ascii ''spect_id_vector''), (ascii ''spect_inds_vector''),
                (ascii ''x_inds'')] w3 = (rv, w4)"
              by (cases "copy_vectors csv q [(ascii ''spect_id_vector''), (ascii ''spect_inds_vector''),
                (ascii ''x_inds'')] w3")
            have g5: "grows w w4" by (rule grows_trans [OF g4 copy_vectors_grows [OF cv]])
            from assms m Inr c rcr rd b rbr abc sv rsr cv g5 show ?thesis
              by (cases rv; simp add: copy_replicate_def Let_def q_def)
          qed
        qed
      qed
    qed
  qed
qed

lemma copy_replicate_fresh:
  assumes "copy_replicate B td rdir rn csv w = (Inr p, w')"
  shows "lookup w (joinpath rdir ((ascii ''replicate_'') @ str_int rn)) = None"
proof -
  define q where "q = joinpath rdir ((ascii ''replicate_'') @ str_int rn)"
  obtain r0 w1 where m: "mkdir q w = (r0, w1)" by (cases "mkdir q w")
  with assms have "r0 = Inr ()"
    by (cases r0) (auto simp: copy_replicate_def Let_def q_def)
  with mkdir_cases [OF m] show ?thesis by (auto simp: q_def)
qed

lemma copy_replicates_fresh:
  assumes "copy_replicates B td rdir xs acc w = (Inr ps, w')"
  shows "grows w w' \<and> (\<forall>(rn, csv)\<in>set xs. lookup w (joinpath rdir ((ascii ''replicate_'') @ str_int rn)) = None)"
  using assms
proof (induction xs arbitrary: acc w)
  case Nil
  then show ?case by (simp add: grows_refl)
next
  case (Cons x xs)
  obtain rn csv where x: "x = (rn, csv)" by (cases x)
  from Cons.prems x obtain p w1 where
    h: "copy_replicate B td rdir rn csv w = (Inr p, w1)"
    and t: "copy_replicates B td rdir xs (acc @ [p]) w1 = (Inr ps, w')"
    by (auto split: prod.splits sum.splits)
  note g = copy_replicate_grows [OF h]
  note ih = Cons.IH [OF t]
  from ih g have "grows w w'" by (blast intro: grows_trans)
  moreover have "\<forall>(rn, csv)\<in>set xs. lookup w (joinpath rdir ((ascii ''replicate_'') @ str_int rn)) = None"
    using ih grows_lookup [OF g] by fastforce
  ultimately show ?case
    using copy_replicate_fresh [OF h] x by simp
qed

lemma copy_train_durs_fresh:
  assumes "copy_train_durs B res ks d w = (Inr d', w')"
    and "distinct ks" and "set ks \<subseteq> set (dd_keys d)"
  shows "grows w w' \<and>
         (\<forall>k\<in>set ks. lookup w (train_dur_dir res k) = None \<and>
            (\<forall>csvs. map_of d k = Some csvs \<longrightarrow>
               (\<forall>rn\<in>set [1..int (length csvs)]. lookup w (replicate_dir res k rn) = None)))"
  using assms
proof (induction ks arbitrary: d w)
  case Nil
  then show ?case by (simp add: grows_refl)
next
  case (Cons k ks)
  define tdir where "tdir = train_dur_dir res k"
  have tdir: "tdir = joinpath res ((ascii ''train_dur_'') @ str_int k @ (ascii ''s''))"
    by (simp add: tdir_def train_dur_dir_def)
  have Q: "joinpath tdir ((ascii ''replicate_'') @ str_int rn) = replicate_dir res k rn" for rn
    by (simp add: replicate_dir_def tdir_def)
  from Cons.prems(3) obtain csvs where csvs: "map_of d k = Some csvs"
    by (auto simp: in_dd_keys_iff)
  define xs where "xs = zip [1..int (length csvs)] csvs"
  from Cons.prems(1) csvs obtain w1 ps w2 where
    m: "mkdir tdir w = (Inr (), w1)"
    and rp: "copy_replicates B k tdir xs [] w1 = (Inr ps, w2)"
    and rest: "copy_train_durs B res ks (dd_setitem d k ps) w2 = (Inr d', w')"
    unfolding tdir xs_def
    by (auto simp: Let_def dd_getitem_present split: prod.splits sum.splits)
  from mkdir_cases [OF m] have fresh: "lookup w tdir = None" by auto
  have g01: "grows w w1" by (rule mkdir_grows [OF m])
  note cr = copy_replicates_fresh [OF rp, unfolded Q]
  have g02: "grows w w2" using g01 cr by (blast intro: grows_trans)
  have kk: "k \<in> set (dd_keys d)" using Cons.prems(3) by simp
  have k_rest: "k \<notin> set ks" using Cons.prems(2) by simp
  have sub1: "set ks \<subseteq> set (dd_keys (dd_setitem d k ps))"
    using Cons.prems(3) kk by (simp add: dd_keys_setitem)
  have dist: "distinct ks" using Cons.prems(2) by simp
  note ih = Cons.IH [OF rest dist sub1]
  have c1: "grows w w'" using g02 ih by (blast intro: grows_trans)
  have "map fst xs = [1..int (length csvs)]"
    by (simp add: xs_def)
  then have "set (map fst xs) = set [1..int (length csvs)]"
    by simp
  then have fst_xs: "fst ` set xs = set [1..int (length csvs)]"
    by (simp only: set_map)
  have head: "lookup w (train_dur_dir res k) = None \<and>
            (\<forall>csvs. map_of d k = Some csvs \<longrightarrow>
               (\<forall>rn\<in>set [1..int (length csvs)]. lookup w (replicate_dir res k rn) = None))"
  proof (intro conjI allI impI ballI)
    show "lookup w (train_dur_dir res k) = None" using fresh by (simp add: tdir_def)
    fix csvs' rn assume a: "map_of d k = Some csvs'" "rn \<in> set [1..int (length csvs')]"
    with csvs have "csvs' = csvs" by simp
    with a(2) fst_xs obtain csv where "(rn, csv) \<in> set xs" by force
    with cr have "lookup w1 (replicate_dir res k rn) = None" by auto
    then show "lookup w (replicate_dir res k rn) = None" by (rule grows_lookup [OF g01])
  qed
  have tail: "\<forall>k'\<in>set ks. lookup w (train_dur_dir res k') = None \<and>
            (\<forall>csvs. map_of d k' = Some csvs \<longrightarrow>
               (\<forall>rn\<in>set [1..int (length csvs)]. lookup w (replicate_dir res k' rn) = None))"
  proof (intro ballI conjI allI impI)
    fix k' assume k': "k' \<in> set ks"
    with ih show "lookup w (train_dur_dir res k') = None"
      using grows_lookup [OF g02] by blast
    fix csvs' rn assume a: "map_of d k' = Some csvs'" "rn \<in> set [1..int (length csvs')]"
    from k' k_rest have "k' \<noteq> k" by auto
    with a(1) have "map_of (dd_setitem d k ps) k' = Some csvs'" by (simp add: map_of_dd_setitem)
    with ih k' a(2) have "lookup w2 (replicate_dir res k' rn) = None" by blast
    then show "lookup w (replicate_dir res k' rn) = None" by (rule grows_lookup [OF g02])
  qed
  from c1 head tail show ?case by simp
qed

section \<open>The small runs, evaluated\<close>

lemmas scan_defs = match_TRAIN_DUR_PAT_def startswith_def endswith_def is_digit_def name_of_def
  py_int_def digit_val_def dd_append_def dd_getitem_def dd_setitem_def Let_def ascii_Cons
  ascii_decimal_def glob_CSV_GLOB_def fnmatch_prep_csv_def upt_conv_Cons

lemma example_scan:
  "scan_csv_paths ascii_decimal (sort (glob_CSV_GLOB (fs example_world) [ascii ''prev''])) [] =
     Inr [(10, [[ascii ''prev'', ascii ''foo_prep_train_dur_10s_r1.csv''],
                [ascii ''prev'', ascii ''foo_prep_train_dur_10s_r2.csv'']]),
          (5, [[ascii ''prev'', ascii ''foo_prep_train_dur_5s_r1.csv''],
               [ascii ''prev'', ascii ''foo_prep_train_dur_5s_r2.csv'']])]"
  by (simp add: example_world_def example_fs_def scan_defs)

lemma arabic_scan:
  "scan_csv_paths example_decimal (sort (glob_CSV_GLOB (fs arabic_world) [ascii ''prev''])) [] =
     Inr [(5, [[ascii ''prev'', ascii ''x_prep_train_dur_'' @ [1637] @ ascii ''s.csv'']])]"
  by (simp add: arabic_world_def example_decimal_def scan_defs)

section \<open>Validation comes before the first write\<close>

text \<open>
  C6. When the durations found in the file names are not the requested ones, or some
  duration does not have \<open>num_replicates\<close> files, \<open>from_dir\<close> raises the ValueError of the
  first check that fails and leaves the file system as it found it: no directory is
  created and no file is copied or written. The durations found are the keys of the
  mapping that the scan of the sorted file names builds, whatever decimal digits the
  names are written in.
\<close>

theorem from_dir_validates_before_writing:
  assumes "scan_csv_paths decimal (sort (glob_CSV_GLOB (fs w) previous_run_path)) [] = Inr manifest"
      and "set (dd_keys manifest) \<noteq> set train_set_durs
           \<or> (\<exists>csv_paths\<in>set (dd_values manifest). int (length csv_paths) \<noteq> num_replicates)"
  shows "from_dir decimal spect_vectors_from_df previous_run_path train_set_durs timebin_dur
           num_replicates results_path window_size spect_key timebins_key labelmap w
         = (Inl (if sort (dd_keys manifest) \<noteq> sort train_set_durs
                 then ValueError_train_set_durs (sort train_set_durs) (sort (dd_keys manifest))
                 else ValueError_num_replicates), w)"
proof (cases "sort (dd_keys manifest) = sort train_set_durs")
  case False
  with assms(1) show ?thesis
    by (simp add: from_dir_def Let_def)
next
  case True
  then have "set (dd_keys manifest) = set train_set_durs"
    by (metis set_sort)
  with assms(2) have "\<not> list_all (\<lambda>csv_paths. int (length csv_paths) = num_replicates)
                        (dd_values manifest)"
    by (auto simp: list_all_iff)
  with assms(1) True show ?thesis
    by (simp add: from_dir_def Let_def)
qed

theorem from_dir_validates_before_writing_witness:
  "from_dir ascii_decimal example_vectors [ascii ''prev''] [5, 10, 15] () 2 [ascii ''results''] 88
     (ascii ''s'') (ascii ''t'') () example_world
   = (Inl (ValueError_train_set_durs [5, 10, 15] [5, 10]), example_world)
   \<and> from_dir ascii_decimal example_vectors [ascii ''prev''] [5, 10] () 3 [ascii ''results''] 88
     (ascii ''s'') (ascii ''t'') () example_world
   = (Inl ValueError_num_replicates, example_world)
   \<and> from_dir example_decimal example_vectors [ascii ''prev''] [7] () 1 [ascii ''results''] 88
     (ascii ''s'') (ascii ''t'') () arabic_world
   = (Inl (ValueError_train_set_durs [7] [5]), arabic_world)"
proof -
  have a: "(15 :: int) \<notin> set (dd_keys [(10 :: int, [p1 :: path, p2]), (5, [p3, p4])])" for p1 p2 p3 p4
    by (simp add: dd_keys_def)
  have h1: "set (dd_keys [(10 :: int, [p1 :: path, p2]), (5, [p3, p4])]) \<noteq> set [5, 10, 15]"
    for p1 p2 p3 p4
    using a [of p1 p2 p3 p4] by auto
  have h2: "\<exists>csv_paths \<in> set (dd_values [(10 :: int, [p1 :: path, p2]), (5, [p3, p4])]).
              int (length csv_paths) \<noteq> 3" for p1 p2 p3 p4
    by (simp add: dd_values_def)
  have h3: "set (dd_keys [(5 :: int, [p1 :: path])]) \<noteq> set [7]" for p1
    by (simp add: dd_keys_def)
  note t = from_dir_validates_before_writing [where spect_vectors_from_df = example_vectors
      and timebin_dur = "()" and results_path = "[ascii ''results'']" and window_size = 88
      and spect_key = "ascii ''s''" and timebins_key = "ascii ''t''" and labelmap = "()"]
  note t1 = t [where train_set_durs = "[5, 10, 15]" and num_replicates = 2,
      OF example_scan disjI1 [OF h1]]
  note t2 = t [where train_set_durs = "[5, 10]" and num_replicates = 3,
      OF example_scan disjI2 [OF h2]]
  note t3 = t [where train_set_durs = "[7]" and num_replicates = 1,
      OF arabic_scan disjI1 [OF h3]]
  from t1 t2 t3 show ?thesis
    by (simp add: dd_keys_def)
qed

lemmas run_defs = dd_append_def dd_getitem_def dd_setitem_def dd_keys_def dd_values_def Let_def
  mkdir_def lookup_def store_def joinpath_def parent_def name_of_def str_int_def str_nat.simps
  startswith_def endswith_def subset_replicate_def write_file_def np_save_def to_csv_def
  stem_def rfind_dot_def upt_conv_Cons upto.simps ascii_Cons
  example_df_def example_split_def example_vectors_def

lemma example_from_df:
  "fst (from_df example_split example_vectors example_df [ascii ''data'', ascii ''foo_prep.csv'']
          [1] () 2 [ascii ''results''] () 88 (ascii ''s'') (ascii ''t'') () fresh_world)
   = Inr [(1, [[ascii ''results'', ascii ''train_dur_1s'', ascii ''replicate_1'',
                ascii ''foo_prep_train_dur_1s_replicate_1.csv''],
               [ascii ''results'', ascii ''train_dur_1s'', ascii ''replicate_2'',
                ascii ''foo_prep_train_dur_1s_replicate_2.csv'']])]"
  by (simp add: from_df_def fresh_world_def run_defs)

lemma fst_result: "fst x = Inr m \<Longrightarrow> \<exists>w'. x = (Inr m, w')"
  by (cases x) simp

section \<open>The table that \<open>from_df\<close> writes\<close>

text \<open>
  C2. In a successful run of \<open>from_df\<close>, for every requested duration and every replicate
  number from 1 to \<open>num_replicates\<close>, the table written to the replicate's file is the
  train rows of what the splitter returned for the train rows of the full table and that
  duration, followed by the \<open>val\<close> rows of the full table, followed by its \<open>test\<close> rows;
  so the \<open>val\<close> rows and the \<open>test\<close> rows of the written table are those of the full
  table. The file is the one that the result mapping lists for this replicate.
\<close>

theorem from_df_writes_subset_then_val_then_test:
  fixes w :: "'r world"
  assumes "from_df split_dataframe spect_vectors_from_df dataset_df csv_path train_set_durs
             timebin_dur num_replicates results_path labelset window_size spect_key
             timebins_key labelmap w = (Inr m, w')"
      and "train_dur \<in> set train_set_durs"
      and "1 \<le> replicate_num" and "replicate_num \<le> num_replicates"
  shows "\<exists>r0 subset_df r1 written.
           split_dataframe r0 (filter (\<lambda>r. split r = ascii ''train'') dataset_df) train_dur labelset
             = (Inr subset_df, r1)
         \<and> written = filter (\<lambda>r. split r = ascii ''train'') subset_df
                      @ filter (\<lambda>r. split r = ascii ''val'') dataset_df
                      @ filter (\<lambda>r. split r = ascii ''test'') dataset_df
         \<and> lookup w' (subset_csv_path csv_path results_path train_dur replicate_num)
             = Some (CsvWritten written)
         \<and> filter (\<lambda>r. split r = ascii ''val'') written
             = filter (\<lambda>r. split r = ascii ''val'') dataset_df
         \<and> filter (\<lambda>r. split r = ascii ''test'') written
             = filter (\<lambda>r. split r = ascii ''test'') dataset_df
         \<and> map_of m train_dur
             = Some (map (subset_csv_path csv_path results_path train_dur) [1..num_replicates])"
proof -
  have e: "\<forall>k\<in>set (dd_keys ([] :: (int, path) defaultdict)). lookup w (train_dur_dir results_path k) \<noteq> None"
    by (simp add: dd_keys_def)
  have dk: "distinct (dd_keys ([] :: (int, path) defaultdict))"
    by (simp add: dd_keys_def)
  note s = subset_train_durs_success [OF assms(1) [unfolded from_df_def] e dk]
  have rn: "replicate_num \<in> set [1..num_replicates]"
    using assms(3,4) by simp
  have n: "0 < num_replicates"
    using assms(3,4) by simp
  from s assms(2) rn obtain r0 subset_df r1 where
    t: "split_dataframe r0 (filter (\<lambda>r. split r = ascii ''train'') dataset_df) train_dur labelset
          = (Inr subset_df, r1)"
       "lookup w' (subset_csv_path csv_path results_path train_dur replicate_num)
          = Some (CsvWritten (filter (\<lambda>r. split r = ascii ''train'') subset_df
                      @ filter (\<lambda>r. split r = ascii ''val'') dataset_df
                      @ filter (\<lambda>r. split r = ascii ''test'') dataset_df))"
    by blast
  from s n assms(2) have mp: "map_of m train_dur
             = Some (map (subset_csv_path csv_path results_path train_dur) [1..num_replicates])"
    by blast
  define written where "written = filter (\<lambda>r. split r = ascii ''train'') subset_df
                      @ filter (\<lambda>r. split r = ascii ''val'') dataset_df
                      @ filter (\<lambda>r. split r = ascii ''test'') dataset_df"
  have v: "filter (\<lambda>r. split r = ascii ''val'') written
             = filter (\<lambda>r. split r = ascii ''val'') dataset_df"
    by (auto simp: written_def filter_empty_conv intro!: filter_cong)
  have te: "filter (\<lambda>r. split r = ascii ''test'') written
             = filter (\<lambda>r. split r = ascii ''test'') dataset_df"
    by (auto simp: written_def filter_empty_conv intro!: filter_cong)
  from t mp v te show ?thesis
    unfolding written_def [symmetric]
    apply -
    apply (rule exI [of _ r0], rule exI [of _ subset_df], rule exI [of _ r1],
        rule exI [of _ written])
    apply (simp add: written_def)
    done
qed

theorem from_df_writes_subset_then_val_then_test_witness:
  "\<exists>m w'. from_df example_split example_vectors example_df [ascii ''data'', ascii ''foo_prep.csv'']
            [1] () 2 [ascii ''results''] () 88 (ascii ''s'') (ascii ''t'') () fresh_world = (Inr m, w')
     \<and> lookup w' [ascii ''results'', ascii ''train_dur_1s'', ascii ''replicate_2'',
                   ascii ''foo_prep_train_dur_1s_replicate_2.csv'']
         = Some (CsvWritten
             [\<lparr>index = ascii ''0'', split = ascii ''train'', cells = [ascii ''a'']\<rparr>,
              \<lparr>index = ascii ''1'', split = ascii ''val'', cells = [ascii ''b'']\<rparr>,
              \<lparr>index = ascii ''3'', split = ascii ''test'', cells = [ascii ''d'']\<rparr>])
     \<and> map_of m 1 = Some [[ascii ''results'', ascii ''train_dur_1s'', ascii ''replicate_1'',
                ascii ''foo_prep_train_dur_1s_replicate_1.csv''],
               [ascii ''results'', ascii ''train_dur_1s'', ascii ''replicate_2'',
                ascii ''foo_prep_train_dur_1s_replicate_2.csv'']]"
proof -
  from fst_result [OF example_from_df] obtain w' where
    r: "from_df example_split example_vectors example_df [ascii ''data'', ascii ''foo_prep.csv'']
            [1] () 2 [ascii ''results''] () 88 (ascii ''s'') (ascii ''t'') () fresh_world
        = (Inr [(1, [[ascii ''results'', ascii ''train_dur_1s'', ascii ''replicate_1'',
                ascii ''foo_prep_train_dur_1s_replicate_1.csv''],
               [ascii ''results'', ascii ''train_dur_1s'', ascii ''replicate_2'',
                ascii ''foo_prep_train_dur_1s_replicate_2.csv'']])], w')"
    by blast
  have p: "subset_csv_path [ascii ''data'', ascii ''foo_prep.csv''] [ascii ''results''] 1 2
           = [ascii ''results'', ascii ''train_dur_1s'', ascii ''replicate_2'',
                   ascii ''foo_prep_train_dur_1s_replicate_2.csv'']"
    by (simp add: subset_csv_path_def replicate_dir_def train_dur_dir_def joinpath_def stem_def
        rfind_dot_def name_of_def str_int_def str_nat.simps upt_conv_Cons ascii_Cons)
  from from_df_writes_subset_then_val_then_test [OF r, of 1 2]
  have "lookup w' (subset_csv_path [ascii ''data'', ascii ''foo_prep.csv''] [ascii ''results''] 1 2)
         = Some (CsvWritten
             [\<lparr>index = ascii ''0'', split = ascii ''train'', cells = [ascii ''a'']\<rparr>,
              \<lparr>index = ascii ''1'', split = ascii ''val'', cells = [ascii ''b'']\<rparr>,
              \<lparr>index = ascii ''3'', split = ascii ''test'', cells = [ascii ''d'']\<rparr>])"
    by (auto simp: example_split_def example_df_def)
  with r p show ?thesis
    by simp
qed

section \<open>The collaborators of \<open>from_df\<close> see train rows only\<close>






section \<open>The shape of the result mapping\<close>

lemma from_dir_shape:
  assumes "from_dir decimal B prev durs tb n res ws sk tk lm w = (Inr m, w')"
  shows "set (dd_keys m) = set durs" and "distinct (dd_keys m)"
    and "\<forall>paths\<in>set (dd_values m). int (length paths) = n"
proof -
  from from_dir_manifest [OF assms] obtain m0 where
    h: "copy_train_durs (\<lambda>r df crop_dur. B r df ws sk tk crop_dur tb lm) res (dd_keys m0) m0 w
               = (Inr m, w')"
       "distinct (dd_keys m0)" "set (dd_keys m0) = set durs"
       "\<forall>k v. map_of m0 k = Some v \<longrightarrow> int (length v) = n"
    by blast
  from copy_train_durs_shape [OF h(1) subset_refl] have
    s: "dd_keys m = dd_keys m0"
       "\<forall>k v. map_of m0 k = Some v \<longrightarrow> (\<exists>v'. map_of m k = Some v' \<and> length v' = length v)"
    by blast+
  from s(1) h(2,3) show "set (dd_keys m) = set durs" "distinct (dd_keys m)"
    by simp_all
  show "\<forall>paths\<in>set (dd_values m). int (length paths) = n"
  proof
    fix paths assume "paths \<in> set (dd_values m)"
    then obtain k where km: "(k, paths) \<in> set m"
      by (auto simp: dd_values_def)
    with s(1) h(2) have mk: "map_of m k = Some paths"
      by (simp add: dd_keys_def)
    from km have "k \<in> set (dd_keys m)"
      by (force simp: dd_keys_def)
    then have "k \<in> set (dd_keys m0)"
      unfolding s(1) .
    then obtain v where v: "map_of m0 k = Some v"
      by (auto simp: in_dd_keys_iff)
    with s(2) mk have "length paths = length v"
      by fastforce
    with h(4) v show "int (length paths) = n"
      by simp
  qed
qed

lemma from_df_shape:
  fixes w :: "'r world"
  assumes "from_df S B df csv durs tb n res ls ws sk tk lm w = (Inr m, w')"
  shows "0 < n \<Longrightarrow> dd_keys m = durs" and "distinct durs"
    and "0 < n \<Longrightarrow> \<forall>paths\<in>set (dd_values m). int (length paths) = n"
    and "k \<notin> set durs \<Longrightarrow> map_of m k = None"
    and "\<forall>k\<in>set durs. lookup w (train_dur_dir res k) = None
             \<and> (\<forall>rn\<in>set [1..n]. lookup w (replicate_dir res k rn) = None)"
proof -
  have e: "\<forall>k\<in>set (dd_keys ([] :: (int, path) defaultdict)). lookup w (train_dur_dir res k) \<noteq> None"
    by (simp add: dd_keys_def)
  have dk: "distinct (dd_keys ([] :: (int, path) defaultdict))"
    by (simp add: dd_keys_def)
  note s = subset_train_durs_success [OF assms(1) [unfolded from_df_def] e dk]
  from s show k: "0 < n \<Longrightarrow> dd_keys m = durs"
    by (simp add: dd_keys_def)
  from s show d: "distinct durs"
    by blast
  from s show "k \<notin> set durs \<Longrightarrow> map_of m k = None"
    by simp
  from s show "\<forall>k\<in>set durs. lookup w (train_dur_dir res k) = None
             \<and> (\<forall>rn\<in>set [1..n]. lookup w (replicate_dir res k rn) = None)"
    by blast
  show "\<forall>paths\<in>set (dd_values m). int (length paths) = n" if n: "0 < n"
  proof
    fix paths assume "paths \<in> set (dd_values m)"
    then obtain k where km: "(k, paths) \<in> set m"
      by (auto simp: dd_values_def)
    with k [OF n] d have mk: "map_of m k = Some paths"
      by (simp add: dd_keys_def)
    from km k [OF n] have "k \<in> set durs"
      by (force simp: dd_keys_def)
    with s n have "map_of m k = Some (map (subset_csv_path csv res k) [1..n])"
      by blast
    with mk n show "int (length paths) = n"
      by auto
  qed
qed




section \<open>Indexing the result mapping\<close>

text \<open>
  C10. The mapping that a successful \<open>from_dir\<close> or \<open>from_df\<close> returns is a
  \<open>defaultdict(list)\<close>: indexing it with a duration that was not requested does not raise,
  it returns the empty list and inserts the duration with that list.
\<close>

theorem unrequested_duration_yields_empty_list:
  assumes "from_dir decimal spect_vectors_from_df previous_run_path train_set_durs timebin_dur
             num_replicates results_path window_size spect_key timebins_key labelmap w
           = (Inr m, w')
         \<or> from_df split_dataframe spect_vectors_from_df' dataset_df csv_path train_set_durs
             timebin_dur num_replicates results_path labelset window_size spect_key
             timebins_key labelmap w = (Inr m, w')"
      and "train_dur \<notin> set train_set_durs"
  shows "dd_getitem m train_dur = ([], m @ [(train_dur, [])])"
proof -
  from assms(1) have "map_of m train_dur = None"
  proof
    assume a: "from_dir decimal spect_vectors_from_df previous_run_path train_set_durs timebin_dur
             num_replicates results_path window_size spect_key timebins_key labelmap w
           = (Inr m, w')"
    from from_dir_shape(1) [OF a] assms(2) show ?thesis
      using in_dd_keys_iff [of train_dur m] by auto
  next
    assume a: "from_df split_dataframe spect_vectors_from_df' dataset_df csv_path train_set_durs
             timebin_dur num_replicates results_path labelset window_size spect_key
             timebins_key labelmap w = (Inr m, w')"
    from from_df_shape(4) [OF a assms(2)] show ?thesis .
  qed
  then show ?thesis
    by (simp add: dd_getitem_def)
qed

theorem unrequested_duration_yields_empty_list_witness:
  "\<exists>m w'. from_df example_split example_vectors example_df [ascii ''data'', ascii ''foo_prep.csv'']
            [1] () 2 [ascii ''results''] () 88 (ascii ''s'') (ascii ''t'') () fresh_world = (Inr m, w')
     \<and> dd_getitem m 7 = ([], m @ [(7, [])])"
proof -
  from fst_result [OF example_from_df] obtain m w' where
    r: "from_df example_split example_vectors example_df [ascii ''data'', ascii ''foo_prep.csv'']
            [1] () 2 [ascii ''results''] () 88 (ascii ''s'') (ascii ''t'') () fresh_world
        = (Inr m, w')"
    by blast
  have n: "(7 :: int) \<notin> set [1]" by simp
  from unrequested_duration_yields_empty_list [where decimal = ascii_decimal
      and spect_vectors_from_df = example_vectors and previous_run_path = "[]",
      OF disjI2 [OF r] n] r show ?thesis
    by blast
qed

end
